theory Spec2Isabelle
  imports Main "HOL-Library.Word" "HOL-Library.Signed_Division"
begin

unbundle bit_operations_syntax

section \<open>Errors and the directive descriptor\<close>

text \<open>
  \<^verbatim>\<open>FormatError::Type\<close> of \<^verbatim>\<open>pnt.hpp\<close>, extended by \<open>AssertFailed\<close> for the
  \<^verbatim>\<open>assert(false)\<close> branches marked "should not be here". \<^verbatim>\<open>FORMAT_ERROR\<close> either
  throws or aborts; in both builds nothing more is written, so every failure is a value
  that ends the call.
\<close>

datatype FormatError =
  InvalidFormatter | TooFewArguments | TooManyArguments | IncompatibleType
  | NotImplemented | AssertFailed

text \<open>
  \<^verbatim>\<open>FormatterItem\<close>: \<^verbatim>\<open>unsigned int\<close> fields are 32-bit words, \<^verbatim>\<open>flags\<close> is an
  \<^verbatim>\<open>unsigned char\<close>.
\<close>

record FormatterItem =
  position :: "32 word"
  flags :: "8 word"
  width :: "32 word"
  precision :: "32 word"
  formatChar :: char

definition POSITION_NONE :: "32 word" where
  "POSITION_NONE = - 1"

definition FLAG_LEFT_JUSTIFY :: "8 word" where
  "FLAG_LEFT_JUSTIFY = 0x1"

definition FLAG_SHOW_SIGN :: "8 word" where
  "FLAG_SHOW_SIGN = 0x2"

definition FLAG_EXPLICIT_BASE :: "8 word" where
  "FLAG_EXPLICIT_BASE = 0x4"

definition FLAG_FILL_ZERO :: "8 word" where
  "FLAG_FILL_ZERO = 0x8"

definition FLAG_ADD_SPACE :: "8 word" where
  "FLAG_ADD_SPACE = 0x10"

definition WIDTH_EMPTY :: "32 word" where
  "WIDTH_EMPTY = - 1"

definition WIDTH_ARG :: "32 word" where
  "WIDTH_ARG = - 2"

text \<open>\<^verbatim>\<open>flags & FLAG\<close> used as a condition.\<close>

definition hasFlag :: "8 word \<Rightarrow> 8 word \<Rightarrow> bool" where
  "hasFlag fl f = (fl AND f \<noteq> 0)"

text \<open>\<^verbatim>\<open>FormatterItem::fixFlags\<close> (lines 156-172).\<close>

definition fixFlags :: "FormatterItem \<Rightarrow> FormatterItem" where
  "fixFlags fmt =
     (let f1 = (if formatChar fmt \<noteq> CHR ''d'' \<and> formatChar fmt \<noteq> CHR ''b''
                   \<and> formatChar fmt \<noteq> CHR ''s''
                then flags fmt AND NOT (FLAG_SHOW_SIGN OR FLAG_ADD_SPACE)
                else flags fmt AND NOT FLAG_EXPLICIT_BASE);
          f2 = (if hasFlag f1 FLAG_SHOW_SIGN then f1 AND NOT FLAG_ADD_SPACE else f1);
          f3 = (if hasFlag f2 FLAG_LEFT_JUSTIFY then f2 AND NOT FLAG_FILL_ZERO else f2)
      in fmt\<lparr>flags := f3\<rparr>)"

section \<open>The directive parser\<close>

text \<open>
  A template is the list of characters before its terminating NUL; an iterator is the
  remaining suffix. Dereferencing at the end of the list reads the terminator.
\<close>

definition peek :: "string \<Rightarrow> char" where
  "peek s = (case s of [] \<Rightarrow> CHR 0x00 | c # _ \<Rightarrow> c)"

text \<open>The test \<^verbatim>\<open>*p >= '0' && *p <= '9'\<close>.\<close>

definition isDigit :: "char \<Rightarrow> bool" where
  "isDigit c = ((48::nat) \<le> of_char c \<and> of_char c \<le> (57::nat))"

definition findIntegerEnd :: "string \<Rightarrow> string" where
  "findIntegerEnd iter = dropWhile isDigit iter"

text \<open>\<^verbatim>\<open>parseInt\<close>: the accumulator is an \<^verbatim>\<open>unsigned int\<close> and wraps.\<close>

fun parseInt_loop :: "32 word \<Rightarrow> string \<Rightarrow> 32 word" where
  "parseInt_loop out [] = out"
| "parseInt_loop out (c # cs) =
     (if isDigit c then parseInt_loop (out * 10 + (of_char c - 48)) cs else out)"

definition parseInt :: "string \<Rightarrow> 32 word" where
  "parseInt iter = parseInt_loop 0 iter"

text \<open>Each \<open>handle\<close> function returns the field it sets and the advanced iterator.\<close>

definition handlePosition :: "string \<Rightarrow> 32 word \<times> string" where
  "handlePosition iter =
     (let end = findIntegerEnd iter
      in if iter = end \<or> peek end \<noteq> CHR ''$'' then (POSITION_NONE, iter)
         else (parseInt iter, tl end))"

fun handleFlags_loop :: "8 word \<Rightarrow> string \<Rightarrow> 8 word \<times> string" where
  "handleFlags_loop fl [] = (fl, [])"
| "handleFlags_loop fl (c # cs) =
     (if c = CHR ''-'' then handleFlags_loop (fl OR FLAG_LEFT_JUSTIFY) cs
      else if c = CHR ''+'' then handleFlags_loop (fl OR FLAG_SHOW_SIGN) cs
      else if c = CHR ''#'' then handleFlags_loop (fl OR FLAG_EXPLICIT_BASE) cs
      else if c = CHR ''0'' then handleFlags_loop (fl OR FLAG_FILL_ZERO) cs
      else if c = CHR '' '' then handleFlags_loop (fl OR FLAG_ADD_SPACE) cs
      else (fl, c # cs))"

definition handleFlags :: "string \<Rightarrow> 8 word \<times> string" where
  "handleFlags iter = handleFlags_loop 0 iter"

definition handleWidth :: "string \<Rightarrow> 32 word \<times> string" where
  "handleWidth iter =
     (if peek iter = CHR ''*'' then (WIDTH_ARG, tl iter)
      else let end = findIntegerEnd iter
           in if iter = end then (WIDTH_EMPTY, iter) else (parseInt iter, end))"

definition handlePrecision :: "string \<Rightarrow> 32 word \<times> string" where
  "handlePrecision iter =
     (if peek iter \<noteq> CHR ''.'' then (WIDTH_EMPTY, iter)
      else let iter1 = tl iter
           in if peek iter1 = CHR ''*'' then (WIDTH_ARG, tl iter1)
              else let end = findIntegerEnd iter1
                   in if end = iter1 then (0, iter1) else (parseInt iter1, end))"

definition formatChars :: "char list" where
  "formatChars = ''scbdoxXpeEfFgGaA''"

definition handleFormatChar :: "string \<Rightarrow> FormatError + char \<times> string" where
  "handleFormatChar iter =
     (if peek iter \<in> set formatChars then Inr (peek iter, tl iter)
      else Inl InvalidFormatter)"

text \<open>\<^verbatim>\<open>StringFormatterItem::handleFormatter\<close> (lines 330-340).\<close>

definition handleFormatter :: "string \<Rightarrow> FormatError + FormatterItem \<times> string" where
  "handleFormatter iter =
     (let (pos, iter1) = handlePosition iter;
          (fl, iter2) = handleFlags iter1;
          (w, iter3) = handleWidth iter2;
          (p, iter4) = handlePrecision iter3
      in case handleFormatChar iter4 of
           Inl e \<Rightarrow> Inl e
         | Inr (fc, iter5) \<Rightarrow>
             Inr (fixFlags \<lparr>position = pos, flags = fl, width = w, precision = p,
                            formatChar = fc\<rparr>, iter5))"

section \<open>Arguments\<close>

text \<open>
  The argument pack as a list of tagged values, one constructor per argument type the
  overloads of \<^verbatim>\<open>printByType\<close>, \<^verbatim>\<open>printChar\<close>, \<^verbatim>\<open>printPointer\<close> and
  \<^verbatim>\<open>printIntegral\<close> tell apart, on a platform with 8-bit signed \<^verbatim>\<open>char\<close> (the
  sink's \<^verbatim>\<open>char_type\<close>), 32-bit \<^verbatim>\<open>int\<close>, 64-bit \<^verbatim>\<open>long\<close> and 64-bit pointers:
  \<^item> \<open>ABool\<close>: \<^verbatim>\<open>bool\<close>; \<open>AChar\<close>: \<^verbatim>\<open>char_type\<close>;
  \<^item> \<open>ACString a s\<close>: a \<^verbatim>\<open>const char_type*\<close> at address \<open>a\<close> pointing to \<open>s\<close>;
  \<^item> \<open>AString\<close>: a non-pointer value convertible to \<^verbatim>\<open>std::basic_string\<close>;
  \<^item> \<open>AInt\<close>, \<open>AUInt\<close>, \<open>ALong\<close>, \<open>AULong\<close>: \<^verbatim>\<open>int\<close>, \<^verbatim>\<open>unsigned int\<close>,
    \<^verbatim>\<open>long\<close>, \<^verbatim>\<open>unsigned long\<close>;
  \<^item> \<open>APointer\<close>: any other pointer, by its address;
  \<^item> \<open>AOpaque\<close>: a value of a type that is none of these and converts to none of them.
  Floating-point arguments are not part of the model.
\<close>

datatype Arg =
  ABool bool | AChar char | ACString "64 word" string | AString string
  | AInt "32 word" | AUInt "32 word" | ALong "64 word" | AULong "64 word"
  | APointer "64 word" | AOpaque

section \<open>Padding of the non-numeric renderers\<close>

text \<open>
  \<^verbatim>\<open>printPreFill\<close> and \<^verbatim>\<open>printPostFill\<close> (lines 563-589): \<^verbatim>\<open>size = fmt.width - size\<close>
  is an \<^verbatim>\<open>unsigned int\<close> subtraction, and \<^verbatim>\<open>while (size--)\<close> writes \<open>size\<close> blanks.
\<close>

definition printPreFill :: "FormatterItem \<Rightarrow> 32 word \<Rightarrow> string" where
  "printPreFill fmt sz =
     (if width fmt = WIDTH_EMPTY then []
      else let size1 = width fmt - sz
           in if \<not> hasFlag (flags fmt) FLAG_LEFT_JUSTIFY
              then replicate (unat size1) CHR '' '' else [])"

definition printPostFill :: "FormatterItem \<Rightarrow> 32 word \<Rightarrow> string" where
  "printPostFill fmt sz =
     (if width fmt = WIDTH_EMPTY then []
      else let size1 = width fmt - sz
           in if hasFlag (flags fmt) FLAG_LEFT_JUSTIFY
              then replicate (unat size1) CHR '' '' else [])"

text \<open>\<^verbatim>\<open>printByType(fmt, bool)\<close> (lines 607-625).\<close>

definition printByType_bool :: "FormatterItem \<Rightarrow> bool \<Rightarrow> string" where
  "printByType_bool fmt arg =
     printPreFill fmt (if arg then 4 else 5)
     @ (if arg then ''true'' else ''false'')
     @ printPostFill fmt (if arg then 4 else 5)"

text \<open>\<^verbatim>\<open>printChar\<close> for an argument convertible to \<^verbatim>\<open>char_type\<close> (lines 710-722).\<close>

definition printChar_conv :: "FormatterItem \<Rightarrow> char \<Rightarrow> string" where
  "printChar_conv fmt arg = printPreFill fmt 1 @ [arg] @ printPostFill fmt 1"

text \<open>
  \<^verbatim>\<open>printByType(fmt, const char_type*)\<close> (lines 635-655): the text ends at the first
  NUL; its length is a \<^verbatim>\<open>size_t\<close>, narrowed to \<^verbatim>\<open>unsigned int\<close> by the fill functions.
\<close>

definition cstring :: "string \<Rightarrow> string" where
  "cstring s = takeWhile (\<lambda>c. c \<noteq> CHR 0x00) s"

definition printByType_cstr :: "FormatterItem \<Rightarrow> string \<Rightarrow> string" where
  "printByType_cstr fmt arg =
     (let str = cstring arg; sz = length str
      in printPreFill fmt (of_nat sz) @ str @ printPostFill fmt (of_nat sz))"

text \<open>\<^verbatim>\<open>printByType\<close> for a value convertible to a string (lines 686-708).\<close>

definition printByType_string :: "FormatterItem \<Rightarrow> string \<Rightarrow> string" where
  "printByType_string fmt str =
     printPreFill fmt (of_nat (length str)) @ str @ printPostFill fmt (of_nat (length str))"

section \<open>The numeric core\<close>

text \<open>The template parameter \<^verbatim>\<open>Tbase\<close>, restricted by the \<^verbatim>\<open>static_assert\<close>.\<close>

datatype Tbase = Base2 | Base8 | Base10 | Base16

fun baseValue :: "Tbase \<Rightarrow> nat" where
  "baseValue Base2 = 2"
| "baseValue Base8 = 8"
| "baseValue Base10 = 10"
| "baseValue Base16 = 16"

definition baseLetter :: "FormatterItem \<Rightarrow> char" where
  "baseLetter fmt = (if formatChar fmt = CHR ''X'' then CHR ''A'' else CHR ''a'')"

text \<open>The character stored for a digit (lines 935-940).\<close>

definition digitChar :: "char \<Rightarrow> nat \<Rightarrow> char" where
  "digitChar letter digit =
     (if digit \<ge> 10 then char_of (digit + of_char letter - 10) else char_of (digit + 48))"

text \<open>
  The digit loop of \<^verbatim>\<open>printIntegral(char_type* str, fmt, value)\<close> (lines 922-943) for an
  unsigned \<^verbatim>\<open>T\<close>. The buffer is filled back to front, so each digit is put in front of
  the ones already there.
\<close>

function printIntegral_loop_unsigned ::
  "Tbase \<Rightarrow> char \<Rightarrow> 'a::len word \<Rightarrow> string \<Rightarrow> string" where
  "printIntegral_loop_unsigned b letter v buf =
     (if v = 0 then buf
      else let digit = unat v mod baseValue b;
               v1 = word_of_nat (unat v div baseValue b) :: 'a word
           in printIntegral_loop_unsigned b letter v1 (digitChar letter digit # buf))"
  by pat_completeness auto

lemma baseValue_ge2: "2 \<le> baseValue b"
  by (cases b) simp_all

termination printIntegral_loop_unsigned
proof (relation "measure (\<lambda>(b, letter, v, buf). unat v)")
  show "wf (measure (\<lambda>(b, letter, v :: 'a word, buf). unat v))" by simp
next
  fix b :: Tbase and letter :: char and v :: "'a word" and buf :: string
    and digit :: nat and v1 :: "'a word"
  assume nz: "v \<noteq> 0" and v1: "v1 = word_of_nat (unat v div baseValue b)"
  have pos: "0 < unat v" using nz by (simp add: unat_gt_0)
  have "unat v1 = unat v div baseValue b" unfolding v1 by (rule uno_simps(2))
  also have "\<dots> < unat v" using pos baseValue_ge2 [of b] by simp
  finally show "((b, letter, v1, digitChar letter digit # buf), (b, letter, v, buf))
      \<in> measure (\<lambda>(b, letter, v, buf). unat v)" by simp
qed

text \<open>
  The same loop for a signed \<^verbatim>\<open>T\<close>: \<^verbatim>\<open>%\<close> and \<^verbatim>\<open>/\<close> truncate towards zero, so a
  negative value gives a negative remainder; then the remainder and the quotient are
  negated (lines 928-933). The negation \<^verbatim>\<open>value = -value\<close> is the one of \<^verbatim>\<open>T\<close>.
\<close>

function printIntegral_loop_signed ::
  "Tbase \<Rightarrow> char \<Rightarrow> 'a::len word \<Rightarrow> string \<Rightarrow> string" where
  "printIntegral_loop_signed b letter v buf =
     (if v = 0 then buf
      else let digit = sint v smod int (baseValue b);
               v1 = word_of_int (sint v sdiv int (baseValue b)) :: 'a word
           in if digit < 0
              then printIntegral_loop_signed b letter (- v1) (digitChar letter (nat (- digit)) # buf)
              else printIntegral_loop_signed b letter v1 (digitChar letter (nat digit) # buf))"
  by pat_completeness auto

lemma sdiv_abs_less:
  fixes x B :: int
  assumes "x \<noteq> 0" and "2 \<le> B"
  shows "\<bar>x sdiv B\<bar> < \<bar>x\<bar>"
proof -
  have nn: "0 \<le> \<bar>x\<bar> div B" using assms by (simp add: pos_imp_zdiv_nonneg_iff)
  have "\<bar>x sdiv B\<bar> = \<bar>x\<bar> div B"
    using assms nn by (simp add: signed_divide_int_def abs_mult)
  also have "\<dots> < \<bar>x\<bar>" using assms by (simp add: int_div_less_self)
  finally show ?thesis .
qed

lemma sint_word_of_int_sdiv:
  fixes v :: "'a::len word" and B :: int
  assumes "2 \<le> B"
  shows "sint (word_of_int (sint v sdiv B) :: 'a word) = sint v sdiv B"
proof -
  have r: "\<bar>sint v\<bar> \<le> 2 ^ (LENGTH('a) - 1)"
    using sint_ge [of v] sint_lt [of v] by simp
  have "\<bar>sint v sdiv B\<bar> < 2 ^ (LENGTH('a) - 1)"
  proof (cases "sint v = 0")
    case True
    then show ?thesis by simp
  next
    case False
    then have "\<bar>sint v sdiv B\<bar> < \<bar>sint v\<bar>" using assms by (rule sdiv_abs_less)
    with r show ?thesis by simp
  qed
  then have "- (2 ^ (LENGTH('a) - 1)) \<le> sint v sdiv B \<and> sint v sdiv B < 2 ^ (LENGTH('a) - 1)"
    by auto
  then show ?thesis
    by (simp add: sint_sbintrunc' signed_take_bit_int_eq_self_iff)
qed

lemma signed_take_bit_power: "signed_take_bit n ((2::int) ^ n) = - (2 ^ n)"
proof -
  have "take_bit (Suc n) ((2::int) ^ n + 2 ^ n) = take_bit (Suc n) (2 ^ Suc n)"
    by simp
  also have "\<dots> = 0"
    unfolding take_bit_eq_mod by simp
  finally show ?thesis
    unfolding signed_take_bit_eq_take_bit_shift by simp
qed

lemma sint_minus_cases:
  fixes w :: "'a::len word"
  shows "sint (- w) = (if sint w = - (2 ^ (LENGTH('a) - 1)) then sint w else - sint w)"
proof (cases "sint w = - (2 ^ (LENGTH('a) - 1))")
  case True
  then have "sint (- w) = - (2 ^ (LENGTH('a) - 1))"
    unfolding sint_word_minus by (simp add: signed_take_bit_power)
  with True show ?thesis by simp
next
  case False
  then have "- (2 ^ (LENGTH('a) - 1)) \<le> - sint w \<and> - sint w < 2 ^ (LENGTH('a) - 1)"
    using sint_ge [of w] sint_lt [of w] by auto
  then have "sint (- w) = - sint w"
    by (simp add: sint_word_minus signed_take_bit_int_eq_self_iff)
  with False show ?thesis by simp
qed

lemma abs_sint_minus: "\<bar>sint (- w)\<bar> = \<bar>sint (w::'a::len word)\<bar>"
  by (simp add: sint_minus_cases)

lemma sint_quotient_less:
  fixes v :: "'a::len word"
  assumes "v \<noteq> 0"
  shows "\<bar>sint (word_of_int (sint v sdiv int (baseValue b)) :: 'a word)\<bar> < \<bar>sint v\<bar>"
proof -
  have B: "2 \<le> int (baseValue b)" using baseValue_ge2 [of b] by simp
  have "sint v \<noteq> 0" using assms by (simp add: signed_eq_0_iff)
  then show ?thesis
    unfolding sint_word_of_int_sdiv [OF B] using B by (rule sdiv_abs_less)
qed

termination printIntegral_loop_signed
proof (relation "measure (\<lambda>(b, letter, v, buf). nat \<bar>sint v\<bar>)")
  show "wf (measure (\<lambda>(b, letter, v :: 'a word, buf). nat \<bar>sint v\<bar>))" by simp
next
  fix b :: Tbase and letter :: char and v :: "'a word" and buf :: string
    and digit :: int and v1 :: "'a word"
  assume nz: "v \<noteq> 0" and v1: "v1 = word_of_int (sint v sdiv int (baseValue b))"
  have "\<bar>sint (- v1)\<bar> < \<bar>sint v\<bar>"
    unfolding abs_sint_minus v1 using nz by (rule sint_quotient_less)
  then show "((b, letter, - v1, digitChar letter (nat (- digit)) # buf), (b, letter, v, buf))
      \<in> measure (\<lambda>(b, letter, v, buf). nat \<bar>sint v\<bar>)" by simp
next
  fix b :: Tbase and letter :: char and v :: "'a word" and buf :: string
    and digit :: int and v1 :: "'a word"
  assume nz: "v \<noteq> 0" and v1: "v1 = word_of_int (sint v sdiv int (baseValue b))"
  have "\<bar>sint v1\<bar> < \<bar>sint v\<bar>"
    unfolding v1 using nz by (rule sint_quotient_less)
  then show "((b, letter, v1, digitChar letter (nat digit) # buf), (b, letter, v, buf))
      \<in> measure (\<lambda>(b, letter, v, buf). nat \<bar>sint v\<bar>)" by simp
qed

text \<open>
  The composition of \<^verbatim>\<open>printIntegral(fmt, value)\<close> (lines 777-901) around the digit
  buffer \<open>num\<close>; \<open>neg\<close> is \<^verbatim>\<open>isNegative(value)\<close> and \<open>nonzero\<close> is \<^verbatim>\<open>value != 0\<close>.
  \<^verbatim>\<open>size\<close> is a \<^verbatim>\<open>size_t\<close> that never exceeds 66, \<^verbatim>\<open>zerofill\<close> and \<^verbatim>\<open>fill\<close> are
  \<^verbatim>\<open>unsigned int\<close>. The test of line 841 is on the three values cast to \<^verbatim>\<open>int\<close>; its
  difference is taken in 32-bit two's complement, where it wraps as the compiled
  subtraction does. Both \<^verbatim>\<open>assert(false)\<close> branches end the call; everything is
  written only when none of the checks fails.
\<close>

definition isBaseChar :: "char \<Rightarrow> bool" where
  "isBaseChar c = (c = CHR ''x'' \<or> c = CHR ''X'' \<or> c = CHR ''o'')"

text \<open>The zero-fill floor (lines 791-805), from the number of digits in the buffer.\<close>

definition printIntegral_zerofill :: "FormatterItem \<Rightarrow> nat \<Rightarrow> 32 word" where
  "printIntegral_zerofill fmt numsize =
     (let zerofill = (if precision fmt = WIDTH_EMPTY then 1 else precision fmt)
      in if unat zerofill > numsize then zerofill - of_nat numsize else 0)"

text \<open>Whether the sizing step reserves one character for a sign (lines 809-811).\<close>

definition printIntegral_signed_size :: "FormatterItem \<Rightarrow> bool \<Rightarrow> bool" where
  "printIntegral_signed_size fmt neg =
     ((neg \<and> formatChar fmt = CHR ''d'') \<or> hasFlag (flags fmt) FLAG_SHOW_SIGN
       \<or> hasFlag (flags fmt) FLAG_ADD_SPACE)"

text \<open>
  The size with the sign or the base prefix (lines 809-827). The \<^verbatim>\<open>default\<close> branch of
  the \<^verbatim>\<open>switch\<close> is the assertion that \<open>printIntegral_compose\<close> checks before it
  uses the size.
\<close>

definition printIntegral_size :: "FormatterItem \<Rightarrow> bool \<Rightarrow> bool \<Rightarrow> nat \<Rightarrow> nat" where
  "printIntegral_size fmt neg nonzero numsize =
     (if printIntegral_signed_size fmt neg then numsize + 1
      else if hasFlag (flags fmt) FLAG_EXPLICIT_BASE
           then (if formatChar fmt = CHR ''x'' \<or> formatChar fmt = CHR ''X''
                 then (if nonzero then numsize + 2 else numsize)
                 else numsize + 1)
           else numsize)"

text \<open>The fill for an explicit or absent width (lines 831-845).\<close>

definition printIntegral_fill :: "FormatterItem \<Rightarrow> nat \<Rightarrow> 32 word \<Rightarrow> 32 word" where
  "printIntegral_fill fmt sz zerofill =
     (let fill = (if width fmt = WIDTH_EMPTY then 0 else width fmt)
      in if 0 \<le> sint (fill - of_nat sz - zerofill) then fill - of_nat sz - zerofill else 0)"

text \<open>The sign or the base prefix that is written (lines 856-885).\<close>

definition printIntegral_sign :: "FormatterItem \<Rightarrow> bool \<Rightarrow> bool \<Rightarrow> string" where
  "printIntegral_sign fmt neg nonzero =
     (if hasFlag (flags fmt) FLAG_EXPLICIT_BASE
      then (if formatChar fmt = CHR ''x'' then (if nonzero then ''0x'' else [])
            else if formatChar fmt = CHR ''X'' then (if nonzero then ''0X'' else [])
            else ''0'')
      else if neg then ''-''
      else if hasFlag (flags fmt) FLAG_SHOW_SIGN then ''+''
      else if hasFlag (flags fmt) FLAG_ADD_SPACE then '' ''
      else [])"

definition printIntegral_compose ::
  "FormatterItem \<Rightarrow> bool \<Rightarrow> bool \<Rightarrow> string \<Rightarrow> FormatError + string" where
  "printIntegral_compose fmt neg nonzero num =
     (let numsize = length num;
          fl = flags fmt
      in if precision fmt = WIDTH_ARG then Inl NotImplemented
         else if \<not> printIntegral_signed_size fmt neg \<and> hasFlag fl FLAG_EXPLICIT_BASE
                 \<and> \<not> isBaseChar (formatChar fmt)
         then Inl AssertFailed
         else if width fmt = WIDTH_ARG then Inl NotImplemented
         else if hasFlag fl FLAG_EXPLICIT_BASE \<and> \<not> isBaseChar (formatChar fmt)
         then Inl AssertFailed
         else
           let zerofill = printIntegral_zerofill fmt numsize;
               sz = printIntegral_size fmt neg nonzero numsize;
               fill = printIntegral_fill fmt sz zerofill
           in Inr ((if \<not> hasFlag fl FLAG_FILL_ZERO \<and> \<not> hasFlag fl FLAG_LEFT_JUSTIFY
                    then replicate (unat fill) CHR '' '' else [])
                   @ printIntegral_sign fmt neg nonzero
                   @ replicate (unat (if hasFlag fl FLAG_FILL_ZERO
                                      then zerofill + fill else zerofill)) CHR ''0''
                   @ num
                   @ (if hasFlag fl FLAG_LEFT_JUSTIFY
                      then replicate (unat fill) CHR '' '' else [])))"

text \<open>\<^verbatim>\<open>printIntegral<Tbase, T>\<close> for a signed and for an unsigned \<^verbatim>\<open>T\<close>.\<close>

definition printIntegral_signed ::
  "Tbase \<Rightarrow> FormatterItem \<Rightarrow> 'a::len word \<Rightarrow> FormatError + string" where
  "printIntegral_signed b fmt v =
     printIntegral_compose fmt (sint v < 0) (v \<noteq> 0)
       (printIntegral_loop_signed b (baseLetter fmt) v [])"

definition printIntegral_unsigned ::
  "Tbase \<Rightarrow> FormatterItem \<Rightarrow> 'a::len word \<Rightarrow> FormatError + string" where
  "printIntegral_unsigned b fmt v =
     printIntegral_compose fmt False (v \<noteq> 0)
       (printIntegral_loop_unsigned b (baseLetter fmt) v [])"

section \<open>Renderers by argument type\<close>

text \<open>
  \<^verbatim>\<open>printIntegral<base>(fmt, arg)\<close> by the type of the argument: \<^verbatim>\<open>isIntegral\<close> holds
  of the integer types and of \<^verbatim>\<open>char\<close>, not of \<^verbatim>\<open>bool\<close>.
\<close>

fun printIntegral :: "Tbase \<Rightarrow> FormatterItem \<Rightarrow> Arg \<Rightarrow> FormatError + string" where
  "printIntegral b fmt (AInt v) = printIntegral_signed b fmt v"
| "printIntegral b fmt (AUInt v) = printIntegral_unsigned b fmt v"
| "printIntegral b fmt (ALong v) = printIntegral_signed b fmt v"
| "printIntegral b fmt (AULong v) = printIntegral_unsigned b fmt v"
| "printIntegral b fmt (AChar c) = printIntegral_signed b fmt (of_char c :: 8 word)"
| "printIntegral b fmt _ = Inl IncompatibleType"

text \<open>\<^verbatim>\<open>printUnsigned<base>\<close>: the value converted to \<^verbatim>\<open>make_unsigned<T>\<close>.\<close>

fun printUnsigned :: "Tbase \<Rightarrow> FormatterItem \<Rightarrow> Arg \<Rightarrow> FormatError + string" where
  "printUnsigned b fmt (AInt v) = printIntegral_unsigned b fmt v"
| "printUnsigned b fmt (AUInt v) = printIntegral_unsigned b fmt v"
| "printUnsigned b fmt (ALong v) = printIntegral_unsigned b fmt v"
| "printUnsigned b fmt (AULong v) = printIntegral_unsigned b fmt v"
| "printUnsigned b fmt (AChar c) = printIntegral_unsigned b fmt (of_char c :: 8 word)"
| "printUnsigned b fmt _ = Inl IncompatibleType"

text \<open>
  \<^verbatim>\<open>printChar\<close>: the argument converted to \<^verbatim>\<open>char_type\<close> where such a conversion
  exists (an integer keeps its low byte), \<^verbatim>\<open>IncompatibleType\<close> otherwise.
\<close>

fun printChar :: "FormatterItem \<Rightarrow> Arg \<Rightarrow> FormatError + string" where
  "printChar fmt (AChar c) = Inr (printChar_conv fmt c)"
| "printChar fmt (ABool b) = Inr (printChar_conv fmt (char_of (if b then 1 else 0 :: nat)))"
| "printChar fmt (AInt v) = Inr (printChar_conv fmt (char_of (unat v)))"
| "printChar fmt (AUInt v) = Inr (printChar_conv fmt (char_of (unat v)))"
| "printChar fmt (ALong v) = Inr (printChar_conv fmt (char_of (unat v)))"
| "printChar fmt (AULong v) = Inr (printChar_conv fmt (char_of (unat v)))"
| "printChar fmt _ = Inl IncompatibleType"

text \<open>
  \<^verbatim>\<open>printPointer\<close> (lines 734-756): \<^verbatim>\<open>sizeof(void*) * 2\<close> is 16, the address is a
  \<^verbatim>\<open>uintptr_t\<close>.
\<close>

definition printPointer_ptr :: "FormatterItem \<Rightarrow> 64 word \<Rightarrow> FormatError + string" where
  "printPointer_ptr fmt arg =
     (let fmt2 = fmt\<lparr>flags := FLAG_EXPLICIT_BASE, precision := 16, formatChar := CHR ''x''\<rparr>
      in printIntegral_unsigned Base16 fmt2 arg)"

fun printPointer :: "FormatterItem \<Rightarrow> Arg \<Rightarrow> FormatError + string" where
  "printPointer fmt (APointer p) = printPointer_ptr fmt p"
| "printPointer fmt (ACString a s) = printPointer_ptr fmt a"
| "printPointer fmt _ = Inl IncompatibleType"

text \<open>The overloads of \<^verbatim>\<open>printByType\<close> (lines 591-708).\<close>

fun printByType :: "FormatterItem \<Rightarrow> Arg \<Rightarrow> FormatError + string" where
  "printByType fmt (ABool b) = Inr (printByType_bool fmt b)"
| "printByType fmt (AChar c) = printChar fmt (AChar c)"
| "printByType fmt (ACString a s) = Inr (printByType_cstr fmt s)"
| "printByType fmt (AString s) = Inr (printByType_string fmt s)"
| "printByType fmt (APointer p) = printPointer fmt (APointer p)"
| "printByType fmt AOpaque = Inl IncompatibleType"
| "printByType fmt arg = printIntegral Base10 fmt arg"

section \<open>The argument dispatcher\<close>

text \<open>The \<^verbatim>\<open>switch\<close> of \<^verbatim>\<open>printArg\<close> on the conversion character (lines 514-552).\<close>

definition printArg_switch :: "FormatterItem \<Rightarrow> Arg \<Rightarrow> FormatError + string" where
  "printArg_switch fmt arg1 =
     (let fc = formatChar fmt
      in if fc = CHR ''s'' then printByType fmt arg1
         else if fc = CHR ''c'' then printChar fmt arg1
         else if fc = CHR ''b'' then printUnsigned Base2 fmt arg1
         else if fc = CHR ''d'' then printIntegral Base10 fmt arg1
         else if fc = CHR ''o'' then printUnsigned Base8 fmt arg1
         else if fc = CHR ''x'' \<or> fc = CHR ''X'' then printUnsigned Base16 fmt arg1
         else if fc = CHR ''p'' then printPointer fmt arg1
         else if fc \<in> set ''eEfFgGaA'' then Inl NotImplemented
         else Inl AssertFailed)"

text \<open>
  \<^verbatim>\<open>printArg(item, fmt, arg1, args...)\<close> and its base case without arguments
  (lines 505-561).
\<close>

fun printArg_item :: "32 word \<Rightarrow> FormatterItem \<Rightarrow> Arg list \<Rightarrow> FormatError + string" where
  "printArg_item item fmt [] = Inl TooFewArguments"
| "printArg_item item fmt (arg1 # args) =
     (if item \<noteq> 0 then printArg_item (item - 1) fmt args else printArg_switch fmt arg1)"

definition printArg :: "FormatterItem \<Rightarrow> Arg list \<Rightarrow> FormatError + string" where
  "printArg fmt args = printArg_item (position fmt) fmt args"

section \<open>The template scanner\<close>

text \<open>
  The position bookkeeping of \<^verbatim>\<open>print\<close> for one directive (lines 473-482): the
  descriptor with its effective position, and the new values of the locals
  \<^verbatim>\<open>positional\<close> and \<^verbatim>\<open>position\<close>.
\<close>

definition print_position ::
  "bool \<Rightarrow> 32 word \<Rightarrow> FormatterItem \<Rightarrow> FormatterItem \<times> bool \<times> 32 word" where
  "print_position positional pos fmt =
     (let (fmt1, positional1, pos1) =
            (if position fmt = POSITION_NONE then (fmt\<lparr>position := pos\<rparr>, positional, pos)
             else (fmt, True, position fmt));
          pos2 = (if \<not> positional1 then pos1 + 1 else pos1)
      in (fmt1, positional1, pos2))"

lemma handleFlags_loop_length: "length (snd (handleFlags_loop fl s)) \<le> length s"
  by (induction fl s rule: handleFlags_loop.induct) (auto intro: le_SucI)

lemma findIntegerEnd_length: "length (findIntegerEnd s) \<le> length s"
  by (simp add: findIntegerEnd_def length_dropWhile_le)

lemma handlePosition_length: "length (snd (handlePosition s)) \<le> length s"
  using findIntegerEnd_length [of s]
  by (auto simp: handlePosition_def Let_def intro: le_trans [OF _ findIntegerEnd_length])

lemma handleWidth_length: "length (snd (handleWidth s)) \<le> length s"
  by (simp add: handleWidth_def Let_def findIntegerEnd_length)

lemma handlePrecision_length: "length (snd (handlePrecision s)) \<le> length s"
proof -
  have "length (findIntegerEnd (tl s)) \<le> length s"
    using findIntegerEnd_length [of "tl s"] by simp
  then show ?thesis by (simp add: handlePrecision_def Let_def)
qed

lemma handleFormatChar_length:
  "handleFormatChar s = Inr (fc, r) \<Longrightarrow> length r \<le> length s"
  by (auto simp: handleFormatChar_def split: if_splits)

lemma handleFormatter_length:
  assumes "handleFormatter s = Inr (fmt, r)"
  shows "length r \<le> length s"
proof -
  obtain pos s1 where p1: "handlePosition s = (pos, s1)" by (cases "handlePosition s")
  obtain fl s2 where p2: "handleFlags s1 = (fl, s2)" by (cases "handleFlags s1")
  obtain w s3 where p3: "handleWidth s2 = (w, s3)" by (cases "handleWidth s2")
  obtain p s4 where p4: "handlePrecision s3 = (p, s4)" by (cases "handlePrecision s3")
  from assms p1 p2 p3 p4 obtain fc where "handleFormatChar s4 = Inr (fc, r)"
    by (auto simp: handleFormatter_def split: sum.splits)
  then have "length r \<le> length s4" by (rule handleFormatChar_length)
  also have "\<dots> \<le> length s3" using handlePrecision_length [of s3] p4 by simp
  also have "\<dots> \<le> length s2" using handleWidth_length [of s2] p3 by simp
  also have "\<dots> \<le> length s1"
    using handleFlags_loop_length [of 0 s1] p2 by (simp add: handleFlags_def)
  also have "\<dots> \<le> length s" using handlePosition_length [of s] p1 by simp
  finally show ?thesis .
qed

text \<open>
  The loop of \<^verbatim>\<open>print\<close> (lines 449-493). \<open>run\<close> is the literal run between
  \<^verbatim>\<open>last\<close> and \<^verbatim>\<open>iter\<close>, \<open>sink\<close> what has been written. The result is the sink at
  the end of the call, or the error together with what had been written before it.
\<close>

function print_loop ::
  "Arg list \<Rightarrow> bool \<Rightarrow> 32 word \<Rightarrow> string \<Rightarrow> string \<Rightarrow> string
     \<Rightarrow> FormatError \<times> string + string" where
  "print_loop args positional pos run iter sink =
     (if peek iter = CHR 0x00 then Inr (sink @ run)
      else if peek iter = CHR ''%'' then
        (let sink1 = sink @ run; iter1 = tl iter
         in if peek iter1 = CHR ''%''
            then print_loop args positional pos [] (tl iter1) (sink1 @ ''%'')
            else if peek iter1 = CHR ''(''
            then Inl (NotImplemented, sink1)
            else
              (case handleFormatter iter1 of
                 Inl e \<Rightarrow> Inl (e, sink1)
               | Inr (fmt, iter2) \<Rightarrow>
                   (case print_position positional pos fmt of
                      (fmt1, positional1, pos1) \<Rightarrow>
                        (case printArg fmt1 args of
                           Inl e \<Rightarrow> Inl (e, sink1)
                         | Inr out \<Rightarrow>
                             print_loop args positional1 pos1 [] iter2 (sink1 @ out)))))
      else print_loop args positional pos (run @ [peek iter]) (tl iter) sink)"
  by pat_completeness auto

lemma peek_nonempty: "peek s \<noteq> CHR 0x00 \<Longrightarrow> s \<noteq> []"
  by (auto simp: peek_def)

termination print_loop
proof (relation "measure (\<lambda>(args, positional, pos, run, iter, sink). length iter)")
  show "wf (measure (\<lambda>(args :: Arg list, positional :: bool, pos :: 32 word,
      run :: string, iter :: string, sink :: string). length iter))" by simp
next
  fix args :: "Arg list" and positional :: bool and pos :: "32 word"
    and run iter sink sink1 iter1 :: string
  assume "peek iter \<noteq> CHR 0x00" and "iter1 = tl iter" and "peek iter1 = CHR ''%''"
  then have "iter \<noteq> []" and "iter1 \<noteq> []" by (auto simp: peek_def)
  with \<open>iter1 = tl iter\<close> have "length (tl iter1) < length iter"
    by (cases iter; cases iter1) auto
  then show "((args, positional, pos, [], tl iter1, sink1 @ ''%''),
       (args, positional, pos, run, iter, sink))
      \<in> measure (\<lambda>(args, positional, pos, run, iter, sink). length iter)" by simp
next
  fix args :: "Arg list" and positional positional1 :: bool and pos pos1 :: "32 word"
    and run iter sink sink1 iter1 iter2 out :: string and fmt fmt1 :: FormatterItem
    and x y z
  assume "peek iter \<noteq> CHR 0x00" and "iter1 = tl iter"
    and "handleFormatter iter1 = Inr x" and "(fmt, iter2) = x"
  then have "iter \<noteq> []" and "length iter2 \<le> length iter1"
    using handleFormatter_length [of iter1 fmt iter2] by (auto simp: peek_def)
  with \<open>iter1 = tl iter\<close> have "length iter2 < length iter" by (cases iter) auto
  then show "((args, positional1, pos1, [], iter2, sink1 @ out),
       (args, positional, pos, run, iter, sink))
      \<in> measure (\<lambda>(args, positional, pos, run, iter, sink). length iter)" by simp
next
  fix args :: "Arg list" and positional :: bool and pos :: "32 word"
    and run iter sink :: string
  assume "peek iter \<noteq> CHR 0x00"
  then have "iter \<noteq> []" by (auto simp: peek_def)
  then show "((args, positional, pos, run @ [peek iter], tl iter, sink),
       (args, positional, pos, run, iter, sink))
      \<in> measure (\<lambda>(args, positional, pos, run, iter, sink). length iter)" by simp
qed

text \<open>\<^verbatim>\<open>Formatter::print(format, args...)\<close> on an empty sink.\<close>

definition print :: "string \<Rightarrow> Arg list \<Rightarrow> FormatError \<times> string + string" where
  "print format args = print_loop args False 0 [] format []"

declare print_loop.simps [simp del]
declare printIntegral_loop_unsigned.simps [simp del]
declare printIntegral_loop_signed.simps [simp del]

section \<open>The position counter over a whole call\<close>

text \<open>
  A second description of \<open>print\<close>, to state what the position counter does over a
  whole template. \<open>tokens\<close> is the scanning of \<^verbatim>\<open>print\<close> alone (lines 449-493 without
  the two locals): literal characters, \<open>%%\<close> as a literal percent, parsed directives,
  and the error that stops the scan. \<open>render\<close> writes the tokens in order, giving every
  directive its index by \<open>effective_index\<close>, a closed form over the directives before
  it: an explicit position is taken as it stands; without one, the index is the position
  of the most recent directive that had one, or the number of earlier directives when
  none had. A descriptor has an explicit position when its \<open>position\<close> is not
  \<^verbatim>\<open>POSITION_NONE\<close>.
\<close>

datatype token = Literal char | Directive FormatterItem | Stop FormatError

function tokens :: "string \<Rightarrow> token list" where
  "tokens iter =
     (if peek iter = CHR 0x00 then []
      else if peek iter = CHR ''%'' then
        (let iter1 = tl iter
         in if peek iter1 = CHR ''%'' then Literal CHR ''%'' # tokens (tl iter1)
            else if peek iter1 = CHR ''('' then [Stop NotImplemented]
            else (case handleFormatter iter1 of
                    Inl e \<Rightarrow> [Stop e]
                  | Inr (fmt, iter2) \<Rightarrow> Directive fmt # tokens iter2))
      else Literal (peek iter) # tokens (tl iter))"
  by pat_completeness auto

termination tokens
proof (relation "measure length")
  show "wf (measure (length :: string \<Rightarrow> nat))" by simp
next
  fix iter iter1 :: string
  assume "peek iter \<noteq> CHR 0x00" and "iter1 = tl iter" and "peek iter1 = CHR ''%''"
  then have "iter \<noteq> []" and "iter1 \<noteq> []" by (auto simp: peek_def)
  with \<open>iter1 = tl iter\<close> have "length (tl iter1) < length iter"
    by (cases iter; cases iter1) auto
  then show "(tl iter1, iter) \<in> measure length" by simp
next
  fix iter iter1 iter2 :: string and fmt :: FormatterItem and x
  assume "peek iter \<noteq> CHR 0x00" and "iter1 = tl iter"
    and "handleFormatter iter1 = Inr x" and "(fmt, iter2) = x"
  then have "iter \<noteq> []" and "length iter2 \<le> length iter1"
    using handleFormatter_length [of iter1 fmt iter2] by (auto simp: peek_def)
  with \<open>iter1 = tl iter\<close> have "length iter2 < length iter" by (cases iter) auto
  then show "(iter2, iter) \<in> measure length" by simp
next
  fix iter :: string
  assume "peek iter \<noteq> CHR 0x00"
  then have "iter \<noteq> []" by (auto simp: peek_def)
  then show "(tl iter, iter) \<in> measure length" by simp
qed

declare tokens.simps [simp del]

definition explicit :: "FormatterItem \<Rightarrow> bool" where
  "explicit fmt = (position fmt \<noteq> POSITION_NONE)"

definition counter_after :: "FormatterItem list \<Rightarrow> 32 word" where
  "counter_after ds =
     (if filter explicit ds = [] then of_nat (length ds)
      else position (last (filter explicit ds)))"

definition effective_index :: "FormatterItem list \<Rightarrow> FormatterItem \<Rightarrow> 32 word" where
  "effective_index ds fmt = (if explicit fmt then position fmt else counter_after ds)"

fun render :: "Arg list \<Rightarrow> FormatterItem list \<Rightarrow> token list \<Rightarrow> string
     \<Rightarrow> FormatError \<times> string + string" where
  "render args ds [] sink = Inr sink"
| "render args ds (Stop e # ts) sink = Inl (e, sink)"
| "render args ds (Literal c # ts) sink = render args ds ts (sink @ [c])"
| "render args ds (Directive fmt # ts) sink =
     (case printArg (fmt\<lparr>position := effective_index ds fmt\<rparr>) args of
        Inl e \<Rightarrow> Inl (e, sink)
      | Inr out \<Rightarrow> render args (ds @ [fmt]) ts (sink @ out))"

section \<open>Reference notions\<close>

text \<open>
  The decimal numeral of a natural number, most significant digit first, and the number
  a string of decimal digits denotes. They are what "the correct decimal digits" of a
  value means; they are not part of the program.
\<close>

fun decimal :: "nat \<Rightarrow> string" where
  "decimal n =
     (if n < 10 then [char_of (48 + n)]
      else decimal (n div 10) @ [char_of (48 + n mod 10)])"

declare decimal.simps [simp del]

definition decimal_value :: "string \<Rightarrow> nat" where
  "decimal_value s = foldl (\<lambda>acc c. acc * 10 + (of_char c - 48)) 0 s"

section \<open>Evaluation on concrete templates\<close>

lemmas flag_defs =
  hasFlag_def FLAG_LEFT_JUSTIFY_def FLAG_SHOW_SIGN_def FLAG_EXPLICIT_BASE_def
  FLAG_FILL_ZERO_def FLAG_ADD_SPACE_def POSITION_NONE_def WIDTH_EMPTY_def WIDTH_ARG_def

lemmas parse_defs =
  handleFormatter_def handlePosition_def findIntegerEnd_def isDigit_def peek_def
  parseInt_def handleFlags_def handleWidth_def handlePrecision_def handleFormatChar_def
  formatChars_def fixFlags_def

lemmas print_defs =
  print_def print_loop.simps print_position_def printArg_def printArg_switch_def

lemmas text_defs =
  printByType_cstr_def printByType_string_def printByType_bool_def printChar_conv_def
  cstring_def printPreFill_def printPostFill_def

section \<open>The flag normalizer\<close>

lemma hasFlag_cleared: "NOT m AND f = 0 \<Longrightarrow> \<not> hasFlag (fl AND NOT m) f"
  by (simp add: hasFlag_def and.assoc)

lemma hasFlag_and_mono: "\<not> hasFlag fl f \<Longrightarrow> \<not> hasFlag (fl AND m) f"
proof -
  assume "\<not> hasFlag fl f"
  then have z: "fl AND f = 0" by (simp add: hasFlag_def)
  have "(fl AND m) AND f = (fl AND f) AND m" by (simp add: ac_simps)
  then show ?thesis by (simp add: z hasFlag_def)
qed

lemma flag_masks:
  "NOT (FLAG_SHOW_SIGN OR FLAG_ADD_SPACE) AND FLAG_SHOW_SIGN = 0"
  "NOT (FLAG_SHOW_SIGN OR FLAG_ADD_SPACE) AND FLAG_ADD_SPACE = 0"
  "NOT FLAG_EXPLICIT_BASE AND FLAG_EXPLICIT_BASE = 0"
  "NOT FLAG_ADD_SPACE AND FLAG_ADD_SPACE = 0"
  "NOT FLAG_FILL_ZERO AND FLAG_FILL_ZERO = 0"
  by (simp_all add: FLAG_SHOW_SIGN_def FLAG_ADD_SPACE_def FLAG_EXPLICIT_BASE_def
      FLAG_FILL_ZERO_def)

lemma flags_fixFlags:
  "flags (fixFlags fmt) =
     (let f1 = (if formatChar fmt \<noteq> CHR ''d'' \<and> formatChar fmt \<noteq> CHR ''b''
                   \<and> formatChar fmt \<noteq> CHR ''s''
                then flags fmt AND NOT (FLAG_SHOW_SIGN OR FLAG_ADD_SPACE)
                else flags fmt AND NOT FLAG_EXPLICIT_BASE);
          f2 = (if hasFlag f1 FLAG_SHOW_SIGN then f1 AND NOT FLAG_ADD_SPACE else f1)
      in if hasFlag f2 FLAG_LEFT_JUSTIFY then f2 AND NOT FLAG_FILL_ZERO else f2)"
  by (simp add: fixFlags_def Let_def)

lemma fixFlags_keeps_clear:
  assumes "\<not> hasFlag fl f"
  shows "\<not> hasFlag
     (let f2 = (if hasFlag fl FLAG_SHOW_SIGN then fl AND NOT FLAG_ADD_SPACE else fl)
      in if hasFlag f2 FLAG_LEFT_JUSTIFY then f2 AND NOT FLAG_FILL_ZERO else f2) f"
  using assms by (simp add: Let_def hasFlag_and_mono)

lemma fixFlags_sign_space:
  assumes "formatChar fmt \<noteq> CHR ''d''" "formatChar fmt \<noteq> CHR ''b''"
    "formatChar fmt \<noteq> CHR ''s''"
  shows "\<not> hasFlag (flags (fixFlags fmt)) FLAG_SHOW_SIGN
    \<and> \<not> hasFlag (flags (fixFlags fmt)) FLAG_ADD_SPACE"
proof -
  let ?f1 = "flags fmt AND NOT (FLAG_SHOW_SIGN OR FLAG_ADD_SPACE)"
  have a: "\<not> hasFlag ?f1 FLAG_SHOW_SIGN" by (rule hasFlag_cleared) (rule flag_masks)
  have b: "\<not> hasFlag ?f1 FLAG_ADD_SPACE" by (rule hasFlag_cleared) (rule flag_masks)
  have fl: "flags (fixFlags fmt) =
     (let f2 = (if hasFlag ?f1 FLAG_SHOW_SIGN then ?f1 AND NOT FLAG_ADD_SPACE else ?f1)
      in if hasFlag f2 FLAG_LEFT_JUSTIFY then f2 AND NOT FLAG_FILL_ZERO else f2)"
    unfolding flags_fixFlags using assms by (simp only: Let_def simp_thms if_True)
  show ?thesis
    unfolding fl using fixFlags_keeps_clear [OF a] fixFlags_keeps_clear [OF b] by blast
qed

lemma fixFlags_explicit_base:
  assumes "formatChar fmt = CHR ''d'' \<or> formatChar fmt = CHR ''b'' \<or> formatChar fmt = CHR ''s''"
  shows "\<not> hasFlag (flags (fixFlags fmt)) FLAG_EXPLICIT_BASE"
proof -
  let ?f1 = "flags fmt AND NOT FLAG_EXPLICIT_BASE"
  have a: "\<not> hasFlag ?f1 FLAG_EXPLICIT_BASE" by (rule hasFlag_cleared) (rule flag_masks)
  have c: "\<not> (formatChar fmt \<noteq> CHR ''d'' \<and> formatChar fmt \<noteq> CHR ''b''
      \<and> formatChar fmt \<noteq> CHR ''s'')"
    using assms by blast
  have fl: "flags (fixFlags fmt) =
     (let f2 = (if hasFlag ?f1 FLAG_SHOW_SIGN then ?f1 AND NOT FLAG_ADD_SPACE else ?f1)
      in if hasFlag f2 FLAG_LEFT_JUSTIFY then f2 AND NOT FLAG_FILL_ZERO else f2)"
    unfolding flags_fixFlags using c by (simp only: Let_def if_False)
  show ?thesis
    unfolding fl using fixFlags_keeps_clear [OF a] .
qed

lemma fixFlags_space_if_sign:
  assumes "hasFlag (flags (fixFlags fmt)) FLAG_SHOW_SIGN"
  shows "\<not> hasFlag (flags (fixFlags fmt)) FLAG_ADD_SPACE"
proof -
  define f1 where "f1 = (if formatChar fmt \<noteq> CHR ''d'' \<and> formatChar fmt \<noteq> CHR ''b''
                   \<and> formatChar fmt \<noteq> CHR ''s''
                then flags fmt AND NOT (FLAG_SHOW_SIGN OR FLAG_ADD_SPACE)
                else flags fmt AND NOT FLAG_EXPLICIT_BASE)"
  define f2 where "f2 = (if hasFlag f1 FLAG_SHOW_SIGN then f1 AND NOT FLAG_ADD_SPACE else f1)"
  define f3 where "f3 = (if hasFlag f2 FLAG_LEFT_JUSTIFY then f2 AND NOT FLAG_FILL_ZERO else f2)"
  have fl: "flags (fixFlags fmt) = f3"
    by (simp add: fixFlags_def Let_def f1_def f2_def f3_def)
  from assms have "hasFlag f3 FLAG_SHOW_SIGN" by (simp add: fl)
  then have "hasFlag f2 FLAG_SHOW_SIGN"
    using hasFlag_and_mono [of f2 FLAG_SHOW_SIGN "NOT FLAG_FILL_ZERO"]
    by (auto simp: f3_def split: if_splits)
  then have "hasFlag f1 FLAG_SHOW_SIGN"
    using hasFlag_and_mono [of f1 FLAG_SHOW_SIGN "NOT FLAG_ADD_SPACE"]
    by (auto simp: f2_def split: if_splits)
  then have "\<not> hasFlag f2 FLAG_ADD_SPACE"
    by (simp add: f2_def hasFlag_cleared flag_masks)
  then have "\<not> hasFlag f3 FLAG_ADD_SPACE"
    by (simp add: f3_def hasFlag_and_mono)
  then show ?thesis by (simp add: fl)
qed

lemma fixFlags_zero_if_left:
  assumes "hasFlag (flags (fixFlags fmt)) FLAG_LEFT_JUSTIFY"
  shows "\<not> hasFlag (flags (fixFlags fmt)) FLAG_FILL_ZERO"
proof -
  define f1 where "f1 = (if formatChar fmt \<noteq> CHR ''d'' \<and> formatChar fmt \<noteq> CHR ''b''
                   \<and> formatChar fmt \<noteq> CHR ''s''
                then flags fmt AND NOT (FLAG_SHOW_SIGN OR FLAG_ADD_SPACE)
                else flags fmt AND NOT FLAG_EXPLICIT_BASE)"
  define f2 where "f2 = (if hasFlag f1 FLAG_SHOW_SIGN then f1 AND NOT FLAG_ADD_SPACE else f1)"
  define f3 where "f3 = (if hasFlag f2 FLAG_LEFT_JUSTIFY then f2 AND NOT FLAG_FILL_ZERO else f2)"
  have fl: "flags (fixFlags fmt) = f3"
    by (simp add: fixFlags_def Let_def f1_def f2_def f3_def)
  from assms have "hasFlag f3 FLAG_LEFT_JUSTIFY" by (simp add: fl)
  then have "hasFlag f2 FLAG_LEFT_JUSTIFY"
    using hasFlag_and_mono [of f2 FLAG_LEFT_JUSTIFY "NOT FLAG_FILL_ZERO"]
    by (auto simp: f3_def split: if_splits)
  then have "\<not> hasFlag f3 FLAG_FILL_ZERO"
    by (simp add: f3_def hasFlag_cleared flag_masks)
  then show ?thesis by (simp add: fl)
qed

lemma fixFlags_fields [simp]:
  "formatChar (fixFlags fmt) = formatChar fmt"
  "position (fixFlags fmt) = position fmt"
  "width (fixFlags fmt) = width fmt"
  "precision (fixFlags fmt) = precision fmt"
  by (simp_all add: fixFlags_def Let_def)

lemma handleFormatter_fixFlags:
  assumes "handleFormatter s = Inr (fmt, r)"
  shows "\<exists>fmt0. fmt = fixFlags fmt0"
  using assms
  by (auto simp: handleFormatter_def split: prod.splits sum.splits)

text \<open>
  Claim C8. Whenever \<open>handleFormatter\<close> parses a directive successfully, the descriptor it
  returns has: show-sign and add-space clear unless the conversion is \<open>d\<close>, \<open>b\<close> or
  \<open>s\<close>; explicit-base clear when the conversion is \<open>d\<close> or \<open>b\<close>; add-space clear
  whenever show-sign is set; zero-fill clear whenever left-justify is set.
\<close>

theorem handleFormatter_flags_normalized:
  assumes "handleFormatter s = Inr (fmt, r)"
  shows "(formatChar fmt \<noteq> CHR ''d'' \<and> formatChar fmt \<noteq> CHR ''b'' \<and> formatChar fmt \<noteq> CHR ''s''
            \<longrightarrow> \<not> hasFlag (flags fmt) FLAG_SHOW_SIGN \<and> \<not> hasFlag (flags fmt) FLAG_ADD_SPACE)
       \<and> (formatChar fmt = CHR ''d'' \<or> formatChar fmt = CHR ''b''
            \<longrightarrow> \<not> hasFlag (flags fmt) FLAG_EXPLICIT_BASE)
       \<and> (hasFlag (flags fmt) FLAG_SHOW_SIGN \<longrightarrow> \<not> hasFlag (flags fmt) FLAG_ADD_SPACE)
       \<and> (hasFlag (flags fmt) FLAG_LEFT_JUSTIFY \<longrightarrow> \<not> hasFlag (flags fmt) FLAG_FILL_ZERO)"
proof -
  from assms obtain fmt0 where f: "fmt = fixFlags fmt0"
    using handleFormatter_fixFlags by blast
  show ?thesis
    unfolding f
    using fixFlags_sign_space [of fmt0] fixFlags_explicit_base [of fmt0]
      fixFlags_space_if_sign [of fmt0] fixFlags_zero_if_left [of fmt0]
    by (simp only: fixFlags_fields) blast
qed

theorem handleFormatter_flags_normalized_witness:
  "handleFormatter ''-+ 05d|'' =
      Inr (\<lparr>position = POSITION_NONE, flags = FLAG_LEFT_JUSTIFY OR FLAG_SHOW_SIGN,
             width = 5, precision = WIDTH_EMPTY, formatChar = CHR ''d''\<rparr>, ''|'')
   \<and> \<not> hasFlag (FLAG_LEFT_JUSTIFY OR FLAG_SHOW_SIGN) FLAG_EXPLICIT_BASE
   \<and> hasFlag (FLAG_LEFT_JUSTIFY OR FLAG_SHOW_SIGN) FLAG_SHOW_SIGN
   \<and> \<not> hasFlag (FLAG_LEFT_JUSTIFY OR FLAG_SHOW_SIGN) FLAG_ADD_SPACE
   \<and> hasFlag (FLAG_LEFT_JUSTIFY OR FLAG_SHOW_SIGN) FLAG_LEFT_JUSTIFY
   \<and> \<not> hasFlag (FLAG_LEFT_JUSTIFY OR FLAG_SHOW_SIGN) FLAG_FILL_ZERO"
proof -
  have p: "handleFormatter ''-+ 05d|'' =
      Inr (\<lparr>position = POSITION_NONE, flags = FLAG_LEFT_JUSTIFY OR FLAG_SHOW_SIGN,
             width = 5, precision = WIDTH_EMPTY, formatChar = CHR ''d''\<rparr>, ''|'')"
    by (simp add: parse_defs flag_defs)
  have s: "hasFlag (FLAG_LEFT_JUSTIFY OR FLAG_SHOW_SIGN) FLAG_SHOW_SIGN"
    and l: "hasFlag (FLAG_LEFT_JUSTIFY OR FLAG_SHOW_SIGN) FLAG_LEFT_JUSTIFY"
    by (simp_all add: flag_defs)
  from handleFormatter_flags_normalized [OF p] s l p show ?thesis by simp
qed

section \<open>The argument dispatcher: too few arguments\<close>

lemma printArg_item_short:
  "length args \<le> unat item \<Longrightarrow> printArg_item item fmt args = Inl TooFewArguments"
proof (induction args arbitrary: item)
  case Nil
  then show ?case by simp
next
  case (Cons a args)
  then have pos: "0 < unat item" by simp
  then have nz: "item \<noteq> 0" by (auto simp: unat_gt_0)
  have "unat (item - 1) = unat item - 1" using nz by (simp add: unat_minus_one)
  with Cons.prems have "length args \<le> unat (item - 1)" by simp
  then have "printArg_item (item - 1) fmt args = Inl TooFewArguments" by (rule Cons.IH)
  with nz show ?case by simp
qed

text \<open>
  Claim C9. A directive whose effective target index (the \<open>position\<close> of the descriptor
  handed to \<open>printArg\<close>) is at least the number of supplied arguments makes the
  dispatcher signal \<open>TooFewArguments\<close>; and \<open>print\<close> of the template \<open>%d\<close> with no
  argument signals \<open>TooFewArguments\<close>, nothing having been written.
\<close>

theorem printArg_TooFewArguments:
  "(\<forall>fmt args. length args \<le> unat (position fmt) \<longrightarrow> printArg fmt args = Inl TooFewArguments)
   \<and> print ''%d'' [] = Inl (TooFewArguments, [])"
proof
  show "\<forall>fmt args. length args \<le> unat (position fmt)
      \<longrightarrow> printArg fmt args = Inl TooFewArguments"
    by (simp add: printArg_def printArg_item_short)
  show "print ''%d'' [] = Inl (TooFewArguments, [])"
    by (simp add: print_defs parse_defs flag_defs)
qed

theorem printArg_TooFewArguments_witness:
  "length [AInt 7, AInt 8]
     \<le> unat (position \<lparr>position = 2, flags = 0, width = WIDTH_EMPTY,
                         precision = WIDTH_EMPTY, formatChar = CHR ''d''\<rparr>)
   \<and> printArg \<lparr>position = 2, flags = 0, width = WIDTH_EMPTY,
                precision = WIDTH_EMPTY, formatChar = CHR ''d''\<rparr> [AInt 7, AInt 8]
       = Inl TooFewArguments"
proof -
  let ?fmt = "\<lparr>position = 2, flags = 0, width = WIDTH_EMPTY,
                precision = WIDTH_EMPTY, formatChar = CHR ''d''\<rparr>"
  have h: "length [AInt 7, AInt 8] \<le> unat (position ?fmt)" by simp
  from printArg_TooFewArguments have
    "length [AInt 7, AInt 8] \<le> unat (position ?fmt)
      \<longrightarrow> printArg ?fmt [AInt 7, AInt 8] = Inl TooFewArguments"
    by blast
  with h show ?thesis by blast
qed

section \<open>Explicit positions\<close>

lemma printArg_item_nth:
  "unat item < length args \<Longrightarrow>
     printArg_item item fmt args = printArg_switch fmt (args ! unat item)"
proof (induction args arbitrary: item)
  case Nil
  then show ?case by simp
next
  case (Cons a args)
  show ?case
  proof (cases "item = 0")
    case True
    then show ?thesis by simp
  next
    case False
    then have u: "unat (item - 1) = unat item - 1" by (simp add: unat_minus_one)
    have pos: "0 < unat item" using False by (simp add: unat_gt_0)
    with Cons.prems u have "unat (item - 1) < length args" by simp
    then have "printArg_item (item - 1) fmt args = printArg_switch fmt (args ! unat (item - 1))"
      by (rule Cons.IH)
    then show ?thesis using False u pos by (simp add: nth_Cons')
  qed
qed

text \<open>
  Claim C1, as the code has it. The position parsed from \<open>N$\<close> is a zero-based index:
  \<open>printArg\<close> skips that many arguments and renders the next one. So it is the
  template \<open>%1$s %0$s\<close> that, with the two text arguments \<open>world\<close> and \<open>hello\<close>,
  gives \<open>hello world\<close>.
\<close>

theorem printArg_position_zero_based:
  "(\<forall>fmt args. unat (position fmt) < length args
       \<longrightarrow> printArg fmt args = printArg_switch fmt (args ! unat (position fmt)))
   \<and> print ''%1$s %0$s'' [ACString a ''world'', ACString b ''hello''] = Inr ''hello world''"
proof
  show "\<forall>fmt args. unat (position fmt) < length args
       \<longrightarrow> printArg fmt args = printArg_switch fmt (args ! unat (position fmt))"
    by (simp add: printArg_def printArg_item_nth)
  show "print ''%1$s %0$s'' [ACString a ''world'', ACString b ''hello''] = Inr ''hello world''"
    by (simp add: print_defs parse_defs flag_defs text_defs)
qed

theorem printArg_position_zero_based_witness:
  "unat (position \<lparr>position = 1, flags = 0, width = WIDTH_EMPTY, precision = WIDTH_EMPTY,
                     formatChar = CHR ''s''\<rparr>)
     < length [ACString 0 ''world'', ACString 8 ''hello'']
   \<and> printArg \<lparr>position = 1, flags = 0, width = WIDTH_EMPTY, precision = WIDTH_EMPTY,
                formatChar = CHR ''s''\<rparr> [ACString 0 ''world'', ACString 8 ''hello'']
       = Inr ''hello''"
proof -
  let ?fmt = "\<lparr>position = 1, flags = 0, width = WIDTH_EMPTY, precision = WIDTH_EMPTY,
                formatChar = CHR ''s''\<rparr>"
  let ?args = "[ACString 0 ''world'', ACString 8 ''hello'']"
  have h: "unat (position ?fmt) < length ?args" by simp
  from printArg_position_zero_based have
    "unat (position ?fmt) < length ?args
       \<longrightarrow> printArg ?fmt ?args = printArg_switch ?fmt (?args ! unat (position ?fmt))"
    by blast
  with h have "printArg ?fmt ?args = printArg_switch ?fmt (?args ! unat (position ?fmt))"
    by blast
  then have "printArg ?fmt ?args = Inr ''hello''"
    by (simp add: printArg_switch_def text_defs flag_defs)
  with h show ?thesis by blast
qed

text \<open>
  Claim C1 as stated fails: in \<open>%2$s %1$s\<close> with two arguments the first directive asks
  for the argument of index 2, there is none, and the call ends with
  \<open>TooFewArguments\<close>, nothing written.
\<close>

theorem print_position_two_of_two:
  "print ''%2$s %1$s'' [ACString 0 ''world'', ACString 8 ''hello'']
     = Inl (TooFewArguments, [])"
  by (simp add: print_defs parse_defs flag_defs)

section \<open>Padding of the non-numeric renderers\<close>

lemma printPreFill_width:
  assumes "width fmt \<noteq> WIDTH_EMPTY"
  shows "printPreFill fmt sz =
     (if hasFlag (flags fmt) FLAG_LEFT_JUSTIFY then []
      else replicate (unat (width fmt - sz)) CHR '' '')"
  using assms by (simp add: printPreFill_def)

lemma printPostFill_width:
  assumes "width fmt \<noteq> WIDTH_EMPTY"
  shows "printPostFill fmt sz =
     (if hasFlag (flags fmt) FLAG_LEFT_JUSTIFY
      then replicate (unat (width fmt - sz)) CHR '' '' else [])"
  using assms by (simp add: printPostFill_def)

lemma fill_no_wrap:
  fixes w sz :: "32 word"
  assumes "sz \<le> w"
  shows "unat (w - sz) = unat w - unat sz"
  using assms by (simp add: unat_sub)

lemma handleFormatter_2s:
  "handleFormatter ''2s'' =
     Inr (\<lparr>position = POSITION_NONE, flags = 0, width = 2, precision = WIDTH_EMPTY,
            formatChar = CHR ''s''\<rparr>, [])"
  by (simp add: parse_defs flag_defs)

text \<open>
  Claim C3. The claim promises a fill clamped to zero when the rendered text is wider
  than the width. \<open>printPreFill\<close> and \<open>printPostFill\<close> subtract in \<^verbatim>\<open>unsigned int\<close>
  without a test, so the difference wraps: the template \<open>%2s\<close> with the text
  \<open>hello\<close> writes 4294967293 blanks before the text.
\<close>

theorem print_fill_wraps:
  "print ''%2s'' [ACString a ''hello'']
     = Inr (replicate 4294967293 CHR '' '' @ ''hello'')"
proof -
  have u: "unat (2 - 5 :: 32 word) = 4294967293" by simp
  have "print ''%2s'' [ACString a ''hello'']
     = Inr (replicate (unat (2 - 5 :: 32 word)) CHR '' '' @ ''hello'')"
    unfolding print_def
    apply (subst print_loop.simps)
    apply (simp add: peek_def handleFormatter_2s print_position_def printArg_def
        printArg_switch_def POSITION_NONE_def del: replicate.simps)
    apply (subst print_loop.simps)
    apply (simp add: peek_def printByType_cstr_def cstring_def printPreFill_def printPostFill_def
       flag_defs del: replicate.simps)
    done
  then show ?thesis unfolding u .
qed

section \<open>Integral rendering on concrete values\<close>

lemma replicate_numeral_unfold: "replicate (numeral k) x = x # replicate (pred_numeral k) x"
  by (simp add: numeral_eq_Suc)

lemmas integral_defs =
  printIntegral_signed_def printIntegral_unsigned_def printIntegral_compose_def
  printIntegral_zerofill_def printIntegral_signed_size_def printIntegral_size_def
  printIntegral_fill_def printIntegral_sign_def
  baseLetter_def digitChar_def isBaseChar_def signed_divide_int_def signed_modulo_int_def
  char_of_def bit_0 replicate_numeral_unfold

text \<open>
  Claim C10. \<open>%s\<close> on an \<^verbatim>\<open>int\<close> does reach the base-10 integral renderer, but the
  renderer counts the sign of a negative value into the size only when the conversion
  character is \<open>d\<close> (line 809), while it writes the sign for any conversion character
  (line 880). With a width, \<open>%s\<close> therefore pads a negative value by one blank more
  than \<open>%d\<close>: width 5 and the value -42 give six characters.
\<close>

theorem print_s_differs_from_d:
  "print ''%5s'' [AInt (- 42)] = Inr ''   -42''
   \<and> print ''%5d'' [AInt (- 42)] = Inr ''  -42''"
  by (simp add: print_defs parse_defs flag_defs integral_defs printIntegral_loop_signed.simps)

section \<open>The composition around the digits\<close>

lemma printIntegral_compose_ok:
  assumes "precision fmt \<noteq> WIDTH_ARG" and "width fmt \<noteq> WIDTH_ARG"
    and "\<not> hasFlag (flags fmt) FLAG_EXPLICIT_BASE \<or> isBaseChar (formatChar fmt)"
  shows "printIntegral_compose fmt neg nonzero num =
     Inr ((if \<not> hasFlag (flags fmt) FLAG_FILL_ZERO \<and> \<not> hasFlag (flags fmt) FLAG_LEFT_JUSTIFY
           then replicate (unat (printIntegral_fill fmt
                  (printIntegral_size fmt neg nonzero (length num))
                  (printIntegral_zerofill fmt (length num)))) CHR '' '' else [])
          @ printIntegral_sign fmt neg nonzero
          @ replicate (unat (if hasFlag (flags fmt) FLAG_FILL_ZERO
                             then printIntegral_zerofill fmt (length num)
                                  + printIntegral_fill fmt
                                      (printIntegral_size fmt neg nonzero (length num))
                                      (printIntegral_zerofill fmt (length num))
                             else printIntegral_zerofill fmt (length num))) CHR ''0''
          @ num
          @ (if hasFlag (flags fmt) FLAG_LEFT_JUSTIFY
             then replicate (unat (printIntegral_fill fmt
                  (printIntegral_size fmt neg nonzero (length num))
                  (printIntegral_zerofill fmt (length num)))) CHR '' '' else []))"
  using assms by (auto simp add: printIntegral_compose_def Let_def)

lemma unat_printIntegral_zerofill:
  "unat (printIntegral_zerofill fmt n) =
     (if precision fmt = WIDTH_EMPTY then 1 else unat (precision fmt)) - n"
proof -
  have sub: "unat (z - of_nat n) = unat z - n" if "n < unat z" for z :: "32 word"
  proof -
    have "unat z < 2 ^ 32" using unsigned_less [of z, where ?'a = nat] by simp
    with that have "n < 2 ^ 32" by simp
    then have "unat (of_nat n :: 32 word) = n" by (simp add: unat_of_nat)
    moreover from this that have "(of_nat n :: 32 word) \<le> z" by (simp add: word_le_nat_alt)
    ultimately show ?thesis by (simp add: unat_sub)
  qed
  show ?thesis
    by (auto simp add: printIntegral_zerofill_def Let_def sub)
qed


lemma printIntegral_loop_signed_0 [simp]: "printIntegral_loop_signed b letter 0 buf = buf"
  by (subst printIntegral_loop_signed.simps) simp

lemma printIntegral_loop_unsigned_0 [simp]: "printIntegral_loop_unsigned b letter 0 buf = buf"
  by (subst printIntegral_loop_unsigned.simps) simp



lemma sint_eq_unat_small:
  fixes w :: "32 word"
  assumes "unat w < 2 ^ 31"
  shows "sint w = int (unat w)"
proof -
  have "int (unat w) < int (2 ^ 31)" using assms by (simp only: of_nat_less_iff)
  then have "uint w < 2 ^ 31" by (simp only: uint_nat [symmetric] of_nat_power of_nat_numeral)
  moreover have "- (2 ^ 31) \<le> uint w"
  proof -
    have "(0::int) < 2 ^ 31" by simp
    moreover have "0 \<le> uint w" by simp
    ultimately show ?thesis by linarith
  qed
  ultimately have "signed_take_bit 31 (uint w) = uint w"
    by (simp only: signed_take_bit_int_eq_self_iff)
  then show ?thesis by (simp add: sint_uint)
qed

lemma printIntegral_size_le: "printIntegral_size fmt neg nonzero n \<le> n + 2"
  by (simp add: printIntegral_size_def)

text \<open>Without a width there is no fill, as long as the size and the zero fill are small.\<close>

lemma printIntegral_fill_no_width:
  assumes "width fmt = WIDTH_EMPTY" and "sz + unat z < 2 ^ 31"
  shows "printIntegral_fill fmt sz z = 0"
proof -
  let ?x = "of_nat sz + z :: 32 word"
  have e: "0 - of_nat sz - z = - ?x" by simp
  have d: "printIntegral_fill fmt sz z = (if 0 \<le> sint (- ?x) then - ?x else 0)"
    unfolding printIntegral_fill_def Let_def by (simp only: assms(1) simp_thms if_True e)
  have "(2::nat) ^ 31 < 2 ^ 32" by simp
  with assms(2) have szs: "sz < 2 ^ 32" and sm: "sz + unat z < 2 ^ 32" by simp_all
  have us: "unat (of_nat sz :: 32 word) = sz" using szs by (simp add: unat_of_nat)
  have ux: "unat ?x = sz + unat z"
    using sm us unat_add_lem [of "of_nat sz :: 32 word" z] by simp
  show ?thesis
  proof (cases "?x = 0")
    case True
    then show ?thesis unfolding d by simp
  next
    case False
    have "unat ?x < 2 ^ 31" using ux assms(2) by simp
    then have s: "sint ?x = int (unat ?x)" by (rule sint_eq_unat_small)
    have "0 < unat ?x" using False by (simp add: unat_gt_0)
    then have pos: "0 < sint ?x" unfolding s by (simp only: of_nat_0_less_iff)
    have "(0::int) < 2 ^ (LENGTH(32) - 1)" by simp
    with pos have "sint ?x \<noteq> - (2 ^ (LENGTH(32) - 1))" by linarith
    then have "sint (- ?x) = - sint ?x" by (simp only: sint_minus_cases if_False)
    with pos have "\<not> 0 \<le> sint (- ?x)" by simp
    then show ?thesis unfolding d by simp
  qed
qed

lemma printIntegral_compose_no_width:
  assumes "precision fmt \<noteq> WIDTH_ARG" and "width fmt = WIDTH_EMPTY"
    and "\<not> hasFlag (flags fmt) FLAG_EXPLICIT_BASE \<or> isBaseChar (formatChar fmt)"
    and "(if precision fmt = WIDTH_EMPTY then 1 else unat (precision fmt)) + length num + 2
           < 2 ^ 31"
  shows "printIntegral_compose fmt neg nonzero num =
     Inr (printIntegral_sign fmt neg nonzero
          @ replicate ((if precision fmt = WIDTH_EMPTY then 1 else unat (precision fmt))
                        - length num) CHR ''0''
          @ num)"
proof -
  have w: "width fmt \<noteq> WIDTH_ARG" using assms(2) by (simp add: flag_defs)
  have "printIntegral_size fmt neg nonzero (length num)
          + unat (printIntegral_zerofill fmt (length num))
        \<le> (length num + 2)
          + ((if precision fmt = WIDTH_EMPTY then 1 else unat (precision fmt)) - length num)"
    unfolding unat_printIntegral_zerofill
    using printIntegral_size_le [of fmt neg nonzero "length num"] by simp
  also have "\<dots> \<le> (if precision fmt = WIDTH_EMPTY then 1 else unat (precision fmt))
      + length num + 2"
    by simp
  also note assms(4)
  finally have f: "printIntegral_fill fmt (printIntegral_size fmt neg nonzero (length num))
      (printIntegral_zerofill fmt (length num)) = 0"
    using assms(2) by (simp add: printIntegral_fill_no_width)
  show ?thesis
    unfolding printIntegral_compose_ok [OF assms(1) w assms(3)] f
    by (simp add: unat_printIntegral_zerofill)
qed

section \<open>The digit loop\<close>

lemma of_char_char_of_small: "n < 256 \<Longrightarrow> of_char (char_of (n::nat)) = n"
  by (simp add: take_bit_eq_mod)

lemma decimal_value_snoc:
  "decimal_value (s @ [c]) = decimal_value s * 10 + (of_char c - 48)"
  by (simp add: decimal_value_def)

lemma decimal_value_decimal: "decimal_value (decimal n) = n"
proof (induction n rule: decimal.induct)
  case (1 n)
  show ?case
  proof (cases "n < 10")
    case True
    then show ?thesis
      by (subst decimal.simps) (simp add: decimal_value_def of_char_char_of_small)
  next
    case False
    then have "decimal_value (decimal (n div 10)) = n div 10" by (rule 1)
    moreover have "of_char (char_of (48 + n mod 10)) = 48 + n mod 10"
      by (rule of_char_char_of_small) simp
    ultimately show ?thesis
      using False by (subst decimal.simps) (simp add: decimal_value_snoc)
  qed
qed

lemma smod_abs:
  fixes x B :: int
  assumes "x \<noteq> 0" and "2 \<le> B"
  shows "\<bar>x smod B\<bar> = \<bar>x\<bar> mod B"
  using assms by (simp add: signed_modulo_int_def abs_mult)

lemma sdiv_abs:
  fixes x B :: int
  assumes "2 \<le> B"
  shows "\<bar>x sdiv B\<bar> = \<bar>x\<bar> div B"
proof -
  have nn: "0 \<le> \<bar>x\<bar> div B" using assms by (simp add: pos_imp_zdiv_nonneg_iff)
  show ?thesis
    using assms nn by (cases "x = 0") (simp_all add: signed_divide_int_def abs_mult)
qed

text \<open>One turn of the signed loop, in terms of the magnitude of the value.\<close>

lemma printIntegral_loop_signed_step:
  fixes v :: "'a::len word"
  assumes "v \<noteq> 0"
  shows "\<exists>v' :: 'a word.
     printIntegral_loop_signed b letter v buf =
       printIntegral_loop_signed b letter v'
         (digitChar letter (nat \<bar>sint v\<bar> mod baseValue b) # buf)
     \<and> nat \<bar>sint v'\<bar> = nat \<bar>sint v\<bar> div baseValue b"
proof -
  let ?B = "int (baseValue b)"
  let ?x = "sint v"
  let ?v1 = "word_of_int (?x sdiv ?B) :: 'a word"
  have B: "2 \<le> ?B" using baseValue_ge2 [of b] by simp
  have x: "?x \<noteq> 0" using assms by (simp add: signed_eq_0_iff)
  have q: "\<bar>sint ?v1\<bar> = \<bar>?x\<bar> div ?B"
    unfolding sint_word_of_int_sdiv [OF B] using B by (rule sdiv_abs)
  have r: "\<bar>?x smod ?B\<bar> = \<bar>?x\<bar> mod ?B" using x B by (rule smod_abs)
  have dn: "nat (\<bar>?x\<bar> mod ?B) = nat \<bar>?x\<bar> mod baseValue b"
    by (simp add: nat_mod_distrib)
  have qn: "nat (\<bar>?x\<bar> div ?B) = nat \<bar>?x\<bar> div baseValue b"
    by (simp add: nat_div_distrib)
  show ?thesis
  proof (cases "?x smod ?B < 0")
    case True
    then have d: "nat (- (?x smod ?B)) = nat \<bar>?x\<bar> mod baseValue b"
      using r dn by simp
    have "printIntegral_loop_signed b letter v buf =
        printIntegral_loop_signed b letter (- ?v1)
          (digitChar letter (nat \<bar>?x\<bar> mod baseValue b) # buf)"
      using assms True d by (subst printIntegral_loop_signed.simps) (simp add: Let_def)
    moreover have "nat \<bar>sint (- ?v1)\<bar> = nat \<bar>?x\<bar> div baseValue b"
      unfolding abs_sint_minus q qn ..
    ultimately show ?thesis by blast
  next
    case False
    then have d: "nat (?x smod ?B) = nat \<bar>?x\<bar> mod baseValue b"
      using r dn by simp
    have "printIntegral_loop_signed b letter v buf =
        printIntegral_loop_signed b letter ?v1
          (digitChar letter (nat \<bar>?x\<bar> mod baseValue b) # buf)"
      using assms False d by (subst printIntegral_loop_signed.simps) (simp add: Let_def)
    moreover have "nat \<bar>sint ?v1\<bar> = nat \<bar>?x\<bar> div baseValue b"
      unfolding q qn ..
    ultimately show ?thesis by blast
  qed
qed

lemma abs_sint_eq_0: "nat \<bar>sint (v::'a::len word)\<bar> = 0 \<longleftrightarrow> v = 0"
  by (simp add: signed_eq_0_iff)

text \<open>The signed loop in base 10 writes the decimal numeral of the magnitude.\<close>

lemma printIntegral_loop_signed_decimal:
  fixes v :: "'a::len word"
  shows "printIntegral_loop_signed Base10 letter v buf =
     (if v = 0 then buf else decimal (nat \<bar>sint v\<bar>) @ buf)"
proof (induction "nat \<bar>sint v\<bar>" arbitrary: v buf rule: less_induct)
  case less
  show ?case
  proof (cases "v = 0")
    case True
    then show ?thesis by (subst printIntegral_loop_signed.simps) simp
  next
    case False
    let ?n = "nat \<bar>sint v\<bar>"
    have npos: "0 < ?n" using False abs_sint_eq_0 [of v] by linarith
    from printIntegral_loop_signed_step [OF False, of Base10 letter buf]
    obtain v' :: "'a word" where
      st: "printIntegral_loop_signed Base10 letter v buf =
           printIntegral_loop_signed Base10 letter v' (digitChar letter (?n mod 10) # buf)"
      and mg: "nat \<bar>sint v'\<bar> = ?n div 10"
      by auto
    have lt: "nat \<bar>sint v'\<bar> < ?n" using mg npos by simp
    have c: "digitChar letter (?n mod 10) = char_of (48 + ?n mod 10)"
      by (simp add: digitChar_def add.commute)
    have ih: "printIntegral_loop_signed Base10 letter v' (char_of (48 + ?n mod 10) # buf) =
        (if v' = 0 then char_of (48 + ?n mod 10) # buf
         else decimal (nat \<bar>sint v'\<bar>) @ char_of (48 + ?n mod 10) # buf)"
      by (rule less.hyps [OF lt])
    show ?thesis
    proof (cases "?n < 10")
      case True
      then have "?n div 10 = 0" by simp
      with mg have "v' = 0" using abs_sint_eq_0 [of v'] by simp
      with st c ih True False show ?thesis
        by (subst decimal.simps) simp
    next
      case n10: False
      then have "?n div 10 \<noteq> 0" by simp
      with mg have "v' \<noteq> 0" using abs_sint_eq_0 [of v'] by auto
      with st c ih n10 False mg show ?thesis
        by (subst decimal.simps) simp
    qed
  qed
qed

lemma decimal_not_Nil: "decimal n \<noteq> []"
  by (subst decimal.simps) simp

lemma printIntegral_loop_signed_Nil_iff:
  fixes v :: "'a::len word"
  shows "printIntegral_loop_signed Base10 letter v [] = [] \<longleftrightarrow> v = 0"
  by (simp add: printIntegral_loop_signed_decimal decimal_not_Nil)

text \<open>The composition for a bare \<open>%d\<close>: no flag, no width, no precision.\<close>

lemma decimal_length:
  assumes "n < 10 ^ k" and "0 < k"
  shows "length (decimal n) \<le> k"
  using assms
proof (induction k arbitrary: n)
  case 0
  then show ?case by simp
next
  case (Suc k)
  show ?case
  proof (cases "n < 10")
    case True
    then show ?thesis by (subst decimal.simps) simp
  next
    case False
    then have k: "0 < k" using Suc.prems(1) by (cases k) simp_all
    have "n div 10 < 10 ^ k"
      using Suc.prems(1) by (simp add: less_mult_imp_div_less mult.commute)
    then have "length (decimal (n div 10)) \<le> k" using k by (rule Suc.IH)
    then show ?thesis using False by (subst decimal.simps) simp
  qed
qed

lemma printIntegral_compose_plain_d:
  assumes "fmt = \<lparr>position = p, flags = 0, width = WIDTH_EMPTY, precision = WIDTH_EMPTY,
                   formatChar = CHR ''d''\<rparr>"
    and "length num \<le> 20"
  shows "printIntegral_compose fmt neg nonzero num =
     Inr ((if neg then ''-'' else []) @ (if num = [] then ''0'' else []) @ num)"
proof -
  have h: "precision fmt \<noteq> WIDTH_ARG" "width fmt = WIDTH_EMPTY"
    "\<not> hasFlag (flags fmt) FLAG_EXPLICIT_BASE \<or> isBaseChar (formatChar fmt)"
    unfolding assms(1) by (simp_all add: flag_defs)
  have pe: "precision fmt = WIDTH_EMPTY" unfolding assms(1) by simp
  have "(23::nat) < 2 ^ 31" by simp
  with assms(2) have b: "(if precision fmt = WIDTH_EMPTY then 1 else unat (precision fmt))
      + length num + 2 < 2 ^ 31"
    unfolding pe by simp
  have sg: "printIntegral_sign fmt neg nonzero = (if neg then ''-'' else [])"
    unfolding assms(1) by (simp add: printIntegral_sign_def flag_defs)
  show ?thesis
    unfolding printIntegral_compose_no_width [OF h b]
    by (cases num) (simp_all add: sg pe)
qed

lemma decimal_0: "decimal 0 = ''0''"
  by (subst decimal.simps) (simp add: char_of_def bit_0)

lemma printIntegral_signed_plain_d:
  fixes v :: "'a::len word"
  assumes "fmt = \<lparr>position = p, flags = 0, width = WIDTH_EMPTY, precision = WIDTH_EMPTY,
                   formatChar = CHR ''d''\<rparr>"
    and "nat \<bar>sint v\<bar> < 10 ^ 20"
  shows "printIntegral_signed Base10 fmt v =
     Inr ((if sint v < 0 then ''-'' else []) @ decimal (nat \<bar>sint v\<bar>))"
proof -
  have "length (decimal (nat \<bar>sint v\<bar>)) \<le> 20"
    using assms(2) by (rule decimal_length) simp
  then have l: "length (printIntegral_loop_signed Base10 (baseLetter fmt) v []) \<le> 20"
    by (simp add: printIntegral_loop_signed_decimal)
  show ?thesis
  proof (cases "v = 0")
    case True
    then show ?thesis
      unfolding printIntegral_signed_def printIntegral_compose_plain_d [OF assms(1) l]
      by (simp add: printIntegral_loop_signed_decimal decimal_0)
  next
    case False
    then show ?thesis
      unfolding printIntegral_signed_def printIntegral_compose_plain_d [OF assms(1) l]
      by (simp add: printIntegral_loop_signed_decimal decimal_not_Nil)
  qed
qed

lemma sint_magnitude_32: "nat \<bar>sint (v :: 32 word)\<bar> < 10 ^ 20"
proof -
  have "- (2 ^ 31) \<le> sint v" "sint v < 2 ^ 31"
    using sint_ge [of v] sint_lt [of v] by simp_all
  then have "\<bar>sint v\<bar> \<le> 2 ^ 31" by linarith
  moreover have "(2::int) ^ 31 < 10 ^ 20" by simp
  ultimately have "\<bar>sint v\<bar> < 10 ^ 20" by linarith
  then show ?thesis by (simp add: nat_less_iff)
qed

lemma sint_magnitude_64: "nat \<bar>sint (v :: 64 word)\<bar> < 10 ^ 20"
proof -
  have "- (2 ^ 63) \<le> sint v" "sint v < 2 ^ 63"
    using sint_ge [of v] sint_lt [of v] by simp_all
  then have "\<bar>sint v\<bar> \<le> 2 ^ 63" by linarith
  moreover have "(2::int) ^ 63 < 10 ^ 20" by simp
  ultimately have "\<bar>sint v\<bar> < 10 ^ 20" by linarith
  then show ?thesis by (simp add: nat_less_iff)
qed

lemma handleFormatter_d:
  "handleFormatter ''d'' =
     Inr (\<lparr>position = POSITION_NONE, flags = 0, width = WIDTH_EMPTY,
            precision = WIDTH_EMPTY, formatChar = CHR ''d''\<rparr>, [])"
  by (simp add: parse_defs flag_defs)

lemma print_d_one:
  "print ''%d'' [arg] =
     (case printIntegral Base10 \<lparr>position = 0, flags = 0, width = WIDTH_EMPTY,
            precision = WIDTH_EMPTY, formatChar = CHR ''d''\<rparr> arg of
        Inl e \<Rightarrow> Inl (e, []) | Inr out \<Rightarrow> Inr out)"
  unfolding print_def
  apply (subst print_loop.simps)
  apply (simp add: peek_def handleFormatter_d print_position_def printArg_def
      printArg_switch_def POSITION_NONE_def WIDTH_EMPTY_def)
  apply (subst print_loop.simps)
  apply (simp add: peek_def split: sum.splits)
  done

text \<open>
  Claim C6. For every \<^verbatim>\<open>int\<close> and every \<^verbatim>\<open>long\<close>, the minimum included, \<open>%d\<close>
  writes a minus sign when the value is negative and then the decimal numeral of its
  magnitude: the loop negates the remainder and the quotient of each step, and the one
  negation that wraps (of the minimum's quotient it does not, of a zero remainder's
  quotient it is skipped) never occurs.
\<close>

theorem print_d_signed_decimal:
  "print ''%d'' [AInt v] = Inr ((if sint v < 0 then ''-'' else []) @ decimal (nat \<bar>sint v\<bar>))
   \<and> print ''%d'' [ALong w] = Inr ((if sint w < 0 then ''-'' else []) @ decimal (nat \<bar>sint w\<bar>))"
  by (simp add: print_d_one printIntegral_signed_plain_d [OF refl sint_magnitude_32]
      printIntegral_signed_plain_d [OF refl sint_magnitude_64])

theorem print_d_signed_decimal_witness:
  "print ''%d'' [AInt (- 2147483648)] = Inr ''-2147483648''
   \<and> print ''%d'' [ALong (- 9223372036854775808)] = Inr ''-9223372036854775808''"
proof -
  have a: "decimal 2147483648 = ''2147483648''"
    by (simp add: decimal.simps char_of_def bit_0)
  have b: "decimal 9223372036854775808 = ''9223372036854775808''"
    by (simp add: decimal.simps char_of_def bit_0)
  show ?thesis
    using print_d_signed_decimal [of "- 2147483648" "- 9223372036854775808"]
    by (simp add: a b)
qed

section \<open>Minimum digit count\<close>




section \<open>Sign and base prefix\<close>

lemma printIntegral_compose_explicit_base:
  assumes "hasFlag (flags fmt) FLAG_EXPLICIT_BASE" and "isBaseChar (formatChar fmt)"
    and "precision fmt \<noteq> WIDTH_ARG" and "width fmt \<noteq> WIDTH_ARG"
  shows "\<exists>a k c. printIntegral_compose fmt neg nonzero num =
     Inr (replicate a CHR '' ''
          @ (if formatChar fmt = CHR ''o'' then ''0''
             else if \<not> nonzero then []
             else if formatChar fmt = CHR ''x'' then ''0x'' else ''0X'')
          @ replicate k CHR ''0'' @ num @ replicate c CHR '' '')"
proof -
  let ?f = "unat (printIntegral_fill fmt
                  (printIntegral_size fmt neg nonzero (length num))
                  (printIntegral_zerofill fmt (length num)))"
  let ?a = "if \<not> hasFlag (flags fmt) FLAG_FILL_ZERO \<and> \<not> hasFlag (flags fmt) FLAG_LEFT_JUSTIFY
            then ?f else 0"
  let ?c = "if hasFlag (flags fmt) FLAG_LEFT_JUSTIFY then ?f else 0"
  let ?k = "unat (if hasFlag (flags fmt) FLAG_FILL_ZERO
                  then printIntegral_zerofill fmt (length num)
                       + printIntegral_fill fmt
                           (printIntegral_size fmt neg nonzero (length num))
                           (printIntegral_zerofill fmt (length num))
                  else printIntegral_zerofill fmt (length num))"
  have b: "\<not> hasFlag (flags fmt) FLAG_EXPLICIT_BASE \<or> isBaseChar (formatChar fmt)"
    using assms(2) by simp
  have s: "printIntegral_sign fmt neg nonzero =
      (if formatChar fmt = CHR ''o'' then ''0''
       else if \<not> nonzero then []
       else if formatChar fmt = CHR ''x'' then ''0x'' else ''0X'')"
    using assms(1,2) by (auto simp: printIntegral_sign_def isBaseChar_def)
  have "printIntegral_compose fmt neg nonzero num =
     Inr (replicate ?a CHR '' ''
          @ (if formatChar fmt = CHR ''o'' then ''0''
             else if \<not> nonzero then []
             else if formatChar fmt = CHR ''x'' then ''0x'' else ''0X'')
          @ replicate ?k CHR ''0'' @ num @ replicate ?c CHR '' '')"
    unfolding printIntegral_compose_ok [OF assms(3,4) b] s by simp
  then show ?thesis by blast
qed

text \<open>
  Claim C5. With the explicit-base flag set, an integral render of the conversions
  \<open>x\<close>, \<open>X\<close>, \<open>o\<close> (the unsigned renderer) writes, between the leading blanks and the
  zero padding, exactly \<open>0x\<close> or \<open>0X\<close> when the value is not 0 and nothing when it is
  0, and exactly one \<open>0\<close> for \<open>o\<close> whatever the value. The three examples of the
  claim evaluate as it says.
\<close>

theorem printIntegral_explicit_base_prefix:
  "(\<forall>b (fmt :: FormatterItem) (v :: 'a::len word).
      hasFlag (flags fmt) FLAG_EXPLICIT_BASE \<and> isBaseChar (formatChar fmt)
        \<and> precision fmt \<noteq> WIDTH_ARG \<and> width fmt \<noteq> WIDTH_ARG
      \<longrightarrow> (\<exists>a k c. printIntegral_unsigned b fmt v =
             Inr (replicate a CHR '' ''
                  @ (if formatChar fmt = CHR ''o'' then ''0''
                     else if v = 0 then []
                     else if formatChar fmt = CHR ''x'' then ''0x'' else ''0X'')
                  @ replicate k CHR ''0''
                  @ printIntegral_loop_unsigned b (baseLetter fmt) v []
                  @ replicate c CHR '' '')))
   \<and> print ''%#x'' [AInt 255] = Inr ''0xff''
   \<and> print ''%#o'' [AInt 8] = Inr ''010''
   \<and> print ''%+d'' [AInt 42] = Inr ''+42''"
proof (intro conjI allI impI)
  fix b and fmt :: FormatterItem and v :: "'a word"
  assume h: "hasFlag (flags fmt) FLAG_EXPLICIT_BASE \<and> isBaseChar (formatChar fmt)
        \<and> precision fmt \<noteq> WIDTH_ARG \<and> width fmt \<noteq> WIDTH_ARG"
  then have h1: "hasFlag (flags fmt) FLAG_EXPLICIT_BASE" and h2: "isBaseChar (formatChar fmt)"
    and h3: "precision fmt \<noteq> WIDTH_ARG" and h4: "width fmt \<noteq> WIDTH_ARG"
    by simp_all
  show "\<exists>a k c. printIntegral_unsigned b fmt v =
             Inr (replicate a CHR '' ''
                  @ (if formatChar fmt = CHR ''o'' then ''0''
                     else if v = 0 then []
                     else if formatChar fmt = CHR ''x'' then ''0x'' else ''0X'')
                  @ replicate k CHR ''0''
                  @ printIntegral_loop_unsigned b (baseLetter fmt) v []
                  @ replicate c CHR '' '')"
    unfolding printIntegral_unsigned_def
    using printIntegral_compose_explicit_base [OF h1 h2 h3 h4, of False "v \<noteq> 0"
        "printIntegral_loop_unsigned b (baseLetter fmt) v []"]
    unfolding not_not .
next
  show "print ''%#x'' [AInt 255] = Inr ''0xff''"
    by (simp add: print_defs parse_defs flag_defs integral_defs
        printIntegral_loop_unsigned.simps)
next
  show "print ''%#o'' [AInt 8] = Inr ''010''"
    by (simp add: print_defs parse_defs flag_defs integral_defs
        printIntegral_loop_unsigned.simps)
next
  show "print ''%+d'' [AInt 42] = Inr ''+42''"
    by (simp add: print_defs parse_defs flag_defs integral_defs
        printIntegral_loop_signed.simps)
qed

theorem printIntegral_explicit_base_prefix_witness:
  "hasFlag (flags \<lparr>position = 0, flags = FLAG_EXPLICIT_BASE, width = 8,
                    precision = WIDTH_EMPTY, formatChar = CHR ''X''\<rparr>) FLAG_EXPLICIT_BASE
   \<and> isBaseChar (formatChar \<lparr>position = 0, flags = FLAG_EXPLICIT_BASE, width = 8,
                    precision = WIDTH_EMPTY, formatChar = CHR ''X''\<rparr>)
   \<and> precision \<lparr>position = 0, flags = FLAG_EXPLICIT_BASE, width = 8,
                    precision = WIDTH_EMPTY, formatChar = CHR ''X''\<rparr> \<noteq> WIDTH_ARG
   \<and> width \<lparr>position = 0, flags = FLAG_EXPLICIT_BASE, width = 8,
                    precision = WIDTH_EMPTY, formatChar = CHR ''X''\<rparr> \<noteq> WIDTH_ARG
   \<and> (\<exists>a k c. printIntegral_unsigned Base16
         \<lparr>position = 0, flags = FLAG_EXPLICIT_BASE, width = 8,
           precision = WIDTH_EMPTY, formatChar = CHR ''X''\<rparr> (255 :: 32 word) =
         Inr (replicate a CHR '' '' @ ''0X'' @ replicate k CHR ''0'' @ ''FF''
              @ replicate c CHR '' ''))"
proof -
  let ?f = "\<lparr>position = 0, flags = FLAG_EXPLICIT_BASE, width = 8,
             precision = WIDTH_EMPTY, formatChar = CHR ''X''\<rparr>"
  have h: "hasFlag (flags ?f) FLAG_EXPLICIT_BASE" "isBaseChar (formatChar ?f)"
    "precision ?f \<noteq> WIDTH_ARG" "width ?f \<noteq> WIDTH_ARG"
    by (simp_all add: flag_defs isBaseChar_def)
  have d: "printIntegral_loop_unsigned Base16 (baseLetter ?f) (255 :: 32 word) [] = ''FF''"
    by (simp add: printIntegral_loop_unsigned.simps baseLetter_def digitChar_def char_of_def
        bit_0)
  from printIntegral_explicit_base_prefix [where ?'a = 32] h
  have "\<exists>a k c. printIntegral_unsigned Base16 ?f (255 :: 32 word) =
             Inr (replicate a CHR '' ''
                  @ (if formatChar ?f = CHR ''o'' then ''0''
                     else if (255 :: 32 word) = 0 then []
                     else if formatChar ?f = CHR ''x'' then ''0x'' else ''0X'')
                  @ replicate k CHR ''0''
                  @ printIntegral_loop_unsigned Base16 (baseLetter ?f) (255 :: 32 word) []
                  @ replicate c CHR '' '')"
    by blast
  then have "\<exists>a k c. printIntegral_unsigned Base16 ?f (255 :: 32 word) =
         Inr (replicate a CHR '' '' @ ''0X'' @ replicate k CHR ''0'' @ ''FF''
              @ replicate c CHR '' '')"
    unfolding d by simp
  with h show ?thesis by blast
qed

section \<open>Pointers\<close>

lemma printIntegral_loop_unsigned_length:
  fixes v :: "'a::len word"
  assumes "unat v < 16 ^ k"
  shows "length (printIntegral_loop_unsigned Base16 letter v buf) \<le> length buf + k"
  using assms
proof (induction k arbitrary: v buf)
  case 0
  then have "v = 0" by (simp add: unat_eq_0)
  then show ?case by simp
next
  case (Suc k)
  show ?case
  proof (cases "v = 0")
    case True
    then show ?thesis by simp
  next
    case False
    let ?v1 = "word_of_nat (unat v div 16) :: 'a word"
    have u: "unat ?v1 = unat v div 16" by (rule uno_simps(2))
    have "unat v div 16 < 16 ^ k" using Suc.prems by (simp add: less_mult_imp_div_less mult.commute)
    then have "unat ?v1 < 16 ^ k" using u by simp
    then have "length (printIntegral_loop_unsigned Base16 letter ?v1
         (digitChar letter (unat v mod 16) # buf)) \<le> length (digitChar letter (unat v mod 16) # buf) + k"
      by (rule Suc.IH)
    moreover have "printIntegral_loop_unsigned Base16 letter v buf =
        printIntegral_loop_unsigned Base16 letter ?v1 (digitChar letter (unat v mod 16) # buf)"
      using False by (subst printIntegral_loop_unsigned.simps) (simp add: Let_def)
    ultimately show ?thesis by simp
  qed
qed

lemma printIntegral_loop_unsigned_length_64:
  fixes p :: "64 word"
  shows "length (printIntegral_loop_unsigned Base16 letter p []) \<le> 16"
proof -
  have "unat p < 2 ^ 64" using unsigned_less [of p, where ?'a = nat] by simp
  also have "(2::nat) ^ 64 = 16 ^ 16" by simp
  finally show ?thesis
    using printIntegral_loop_unsigned_length [of p 16 letter "[]"] by simp
qed

text \<open>
  Claim C7, as the code has it. \<open>%p\<close> renders the address as a 64-bit unsigned value in
  lowercase hexadecimal, whatever flags, precision and conversion character the directive
  carried: right-justified in the width, zero-padded to exactly 16 digits, and preceded
  by \<open>0x\<close> when the address is not null. The null pointer has no prefix, since the
  \<open>x\<close> conversion writes its prefix for nonzero values only.
\<close>

theorem printPointer_ptr_render:
  assumes "width fmt \<noteq> WIDTH_ARG"
  shows "(\<exists>a. printPointer_ptr fmt p =
            Inr (replicate a CHR '' '' @ (if p = 0 then [] else ''0x'')
                 @ replicate (16 - length (printIntegral_loop_unsigned Base16 CHR ''a'' p []))
                     CHR ''0''
                 @ printIntegral_loop_unsigned Base16 CHR ''a'' p [])
            \<and> (width fmt = WIDTH_EMPTY \<longrightarrow> a = 0))
       \<and> length (printIntegral_loop_unsigned Base16 CHR ''a'' p []) \<le> 16
       \<and> printPointer_ptr (fmt\<lparr>flags := fl, precision := pr, formatChar := fc\<rparr>) p
           = printPointer_ptr fmt p"
proof (intro conjI)
  let ?f2 = "fmt\<lparr>flags := FLAG_EXPLICIT_BASE, precision := 16, formatChar := CHR ''x''\<rparr>"
  let ?ds = "printIntegral_loop_unsigned Base16 CHR ''a'' p []"
  have pr: "precision ?f2 \<noteq> WIDTH_ARG" by (simp add: flag_defs)
  have wd: "width ?f2 \<noteq> WIDTH_ARG" using assms by simp
  have bc: "\<not> hasFlag (flags ?f2) FLAG_EXPLICIT_BASE \<or> isBaseChar (formatChar ?f2)"
    by (simp add: isBaseChar_def)
  have fl: "hasFlag (flags ?f2) FLAG_EXPLICIT_BASE" "\<not> hasFlag (flags ?f2) FLAG_FILL_ZERO"
    "\<not> hasFlag (flags ?f2) FLAG_LEFT_JUSTIFY"
    by (simp_all add: flag_defs)
  have z: "unat (printIntegral_zerofill ?f2 (length ?ds)) = 16 - length ?ds"
    unfolding unat_printIntegral_zerofill by (simp add: flag_defs)
  have sg: "printIntegral_sign ?f2 False (p \<noteq> 0) = (if p = 0 then [] else ''0x'')"
    using fl(1) by (simp add: printIntegral_sign_def)
  let ?a = "unat (printIntegral_fill ?f2
                  (printIntegral_size ?f2 False (p \<noteq> 0) (length ?ds))
                  (printIntegral_zerofill ?f2 (length ?ds)))"
  have eq: "printPointer_ptr fmt p =
      Inr (replicate ?a CHR '' '' @ (if p = 0 then [] else ''0x'')
           @ replicate (16 - length ?ds) CHR ''0'' @ ?ds)"
    unfolding printPointer_ptr_def Let_def printIntegral_unsigned_def
      printIntegral_compose_ok [OF pr wd bc]
    using fl by (simp add: z sg baseLetter_def)
  have nw: "?a = 0" if "width fmt = WIDTH_EMPTY"
  proof -
    have "printIntegral_size ?f2 False (p \<noteq> 0) (length ?ds)
        + unat (printIntegral_zerofill ?f2 (length ?ds)) \<le> (length ?ds + 2) + 16"
      unfolding z using printIntegral_size_le [of ?f2 False "p \<noteq> 0" "length ?ds"] by simp
    also have "\<dots> \<le> 34" using printIntegral_loop_unsigned_length_64 [of "CHR ''a''" p] by simp
    also have "(34::nat) < 2 ^ 31" by simp
    finally have "printIntegral_size ?f2 False (p \<noteq> 0) (length ?ds)
        + unat (printIntegral_zerofill ?f2 (length ?ds)) < 2 ^ 31" .
    moreover have "width ?f2 = WIDTH_EMPTY" using that by simp
    ultimately have "printIntegral_fill ?f2
                  (printIntegral_size ?f2 False (p \<noteq> 0) (length ?ds))
                  (printIntegral_zerofill ?f2 (length ?ds)) = 0"
      by (rule printIntegral_fill_no_width [rotated])
    then show ?thesis by simp
  qed
  from eq nw show "\<exists>a. printPointer_ptr fmt p =
            Inr (replicate a CHR '' '' @ (if p = 0 then [] else ''0x'')
                 @ replicate (16 - length ?ds) CHR ''0'' @ ?ds)
            \<and> (width fmt = WIDTH_EMPTY \<longrightarrow> a = 0)"
    by blast
  show "length ?ds \<le> 16" by (rule printIntegral_loop_unsigned_length_64)
  show "printPointer_ptr (fmt\<lparr>flags := fl, precision := pr, formatChar := fc\<rparr>) p
           = printPointer_ptr fmt p"
    by (simp add: printPointer_ptr_def)
qed

theorem printPointer_ptr_render_witness:
  "width \<lparr>position = 0, flags = 0, width = WIDTH_EMPTY, precision = WIDTH_EMPTY,
           formatChar = CHR ''p''\<rparr> \<noteq> WIDTH_ARG
   \<and> printPointer_ptr \<lparr>position = 0, flags = 0, width = WIDTH_EMPTY,
        precision = WIDTH_EMPTY, formatChar = CHR ''p''\<rparr> 0x7ffd12345678
       = Inr ''0x00007ffd12345678''
   \<and> print ''%p'' [APointer 0x7ffd12345678] = Inr ''0x00007ffd12345678''
   \<and> print ''%20p'' [APointer 0x7ffd12345678] = Inr ''  0x00007ffd12345678''"
proof -
  let ?f = "\<lparr>position = 0, flags = 0, width = WIDTH_EMPTY, precision = WIDTH_EMPTY,
           formatChar = CHR ''p''\<rparr>"
  have w: "width ?f \<noteq> WIDTH_ARG" by (simp add: flag_defs)
  have d: "printIntegral_loop_unsigned Base16 CHR ''a'' (0x7ffd12345678 :: 64 word) []
      = ''7ffd12345678''"
    by (simp add: printIntegral_loop_unsigned.simps digitChar_def char_of_def bit_0)
  have a: "printPointer_ptr ?f 0x7ffd12345678 = Inr ''0x00007ffd12345678''"
    using printPointer_ptr_render [OF w, of "0x7ffd12345678"]
    by (auto simp add: d replicate_numeral_unfold)
  have b: "print ''%p'' [APointer 0x7ffd12345678] = Inr ''0x00007ffd12345678''"
    by (simp add: print_defs parse_defs flag_defs a [simplified flag_defs])
  have c: "print ''%20p'' [APointer 0x7ffd12345678] = Inr ''  0x00007ffd12345678''"
    by (simp add: print_defs parse_defs flag_defs printPointer_ptr_def integral_defs d)
  from w a b c show ?thesis by blast
qed

text \<open>
  Claim C7 as stated fails at the null pointer: \<open>%p\<close> writes sixteen zeros and no
  \<open>0x\<close>.
\<close>

theorem print_null_pointer_no_prefix:
  "print ''%p'' [APointer 0] = Inr ''0000000000000000''"
  by (simp add: print_defs parse_defs flag_defs printPointer_ptr_def integral_defs)

section \<open>The running position counter\<close>

lemma print_position_effective:
  assumes "positional = (filter explicit ds \<noteq> [])" and "pos = counter_after ds"
  shows "print_position positional pos fmt =
     (fmt\<lparr>position := effective_index ds fmt\<rparr>, filter explicit (ds @ [fmt]) \<noteq> [],
      counter_after (ds @ [fmt]))"
proof (cases "explicit fmt")
  case True
  then have p: "position fmt \<noteq> POSITION_NONE" by (simp add: explicit_def)
  have "fmt\<lparr>position := position fmt\<rparr> = fmt" by simp
  then show ?thesis
    using True p by (simp add: print_position_def effective_index_def counter_after_def)
next
  case False
  then have p: "position fmt = POSITION_NONE" by (simp add: explicit_def)
  show ?thesis
    using False p assms
    by (simp add: print_position_def effective_index_def counter_after_def)
qed

text \<open>\<open>print_loop\<close> is \<open>render\<close> on the tokens of what is left of the template.\<close>

lemma print_loop_render:
  assumes "positional = (filter explicit ds \<noteq> [])" and "pos = counter_after ds"
  shows "print_loop args positional pos run iter sink =
     render args ds (tokens iter) (sink @ run)"
  using assms
proof (induction "length iter" arbitrary: iter ds positional pos run sink rule: less_induct)
  case less
  note inv = less.prems
  show ?case
  proof (cases "peek iter = CHR 0x00")
    case True
    then show ?thesis
      by (subst print_loop.simps, subst tokens.simps) simp
  next
    case nz: False
    then have ne: "iter \<noteq> []" by (auto simp: peek_def)
    show ?thesis
    proof (cases "peek iter = CHR ''%''")
      case False
      have "length (tl iter) < length iter" using ne by simp
      then have "print_loop args positional pos (run @ [peek iter]) (tl iter) sink =
          render args ds (tokens (tl iter)) (sink @ run @ [peek iter])"
        using less.hyps [OF _ inv] by simp
      then show ?thesis
        using nz False by (subst print_loop.simps, subst tokens.simps) simp
    next
      case pc: True
      show ?thesis
      proof (cases "peek (tl iter) = CHR ''%''")
        case True
        then have "tl iter \<noteq> []" by (auto simp: peek_def)
        then have "length (tl (tl iter)) < length iter" using ne by (cases iter) auto
        then have "print_loop args positional pos [] (tl (tl iter)) ((sink @ run) @ ''%'') =
            render args ds (tokens (tl (tl iter))) (((sink @ run) @ ''%'') @ [])"
          using less.hyps [OF _ inv] by blast
        then show ?thesis
          using nz pc True by (subst print_loop.simps, subst tokens.simps) (simp add: Let_def)
      next
        case np: False
        show ?thesis
        proof (cases "peek (tl iter) = CHR ''(''")
          case True
          then show ?thesis
            using nz pc np by (subst print_loop.simps, subst tokens.simps) (simp add: Let_def)
        next
          case ng: False
          show ?thesis
          proof (cases "handleFormatter (tl iter)")
            case (Inl e)
            then show ?thesis
              using nz pc np ng
              by (subst print_loop.simps, subst tokens.simps) (simp add: Let_def)
          next
            case (Inr x)
            obtain fmt iter2 where x: "x = (fmt, iter2)" by (cases x)
            have hf: "handleFormatter (tl iter) = Inr (fmt, iter2)" using Inr x by simp
            have "length iter2 \<le> length (tl iter)" using hf by (rule handleFormatter_length)
            then have lt: "length iter2 < length iter" using ne by (cases iter) auto
            define P' where "P' = (filter explicit (ds @ [fmt]) \<noteq> [])"
            define C' where "C' = counter_after (ds @ [fmt])"
            have pp: "print_position positional pos fmt =
                (fmt\<lparr>position := effective_index ds fmt\<rparr>, P', C')"
              unfolding P'_def C'_def using inv by (rule print_position_effective)
            have ih: "print_loop args P' C' [] iter2 s =
                render args (ds @ [fmt]) (tokens iter2) (s @ [])" for s
              using less.hyps [OF lt P'_def C'_def] .
            show ?thesis
              using nz pc np ng hf
              by (subst print_loop.simps, subst tokens.simps)
                (simp add: Let_def pp ih split: sum.splits)
          qed
        qed
      qed
    qed
  qed
qed

lemma counter_after_plain:
  assumes "filter explicit ds = []"
  shows "counter_after ds = of_nat (length ds)"
  using assms by (simp add: counter_after_def)

lemma counter_after_last_explicit:
  assumes "explicit d" and "filter explicit ds' = []"
  shows "counter_after (ds @ d # ds') = position d"
  using assms by (simp add: counter_after_def)

text \<open>
  Claim C2, as the code has it. A call of \<open>print\<close> renders the tokens of its template
  with these indices: a directive with an explicit position takes that position; a
  directive without one takes the number of directives before it as long as none of
  them had an explicit position (the counter has been incremented once per directive);
  once some earlier directive had an explicit position, a directive without one takes
  the position of the most recent such directive, however many directives lie between
  (the counter is no longer incremented, and each explicit position overwrites it).
\<close>

theorem print_position_counter_call:
  "print format args = render args [] (tokens format) []
   \<and> (\<forall>ds fmt. explicit fmt \<longrightarrow> effective_index ds fmt = position fmt)
   \<and> (\<forall>ds fmt. \<not> explicit fmt \<and> filter explicit ds = []
        \<longrightarrow> effective_index ds fmt = of_nat (length ds))
   \<and> (\<forall>ds d ds' fmt. \<not> explicit fmt \<and> explicit d \<and> filter explicit ds' = []
        \<longrightarrow> effective_index (ds @ d # ds') fmt = position d)"
proof (intro conjI allI impI)
  have "print_loop args False 0 [] format [] = render args [] (tokens format) ([] @ [])"
    by (rule print_loop_render) (simp_all add: counter_after_def)
  then show "print format args = render args [] (tokens format) []"
    by (simp add: print_def)
next
  fix ds fmt
  assume "explicit fmt"
  then show "effective_index ds fmt = position fmt" by (simp add: effective_index_def)
next
  fix ds fmt
  assume "\<not> explicit fmt \<and> filter explicit ds = []"
  then show "effective_index ds fmt = of_nat (length ds)"
    by (simp add: effective_index_def counter_after_plain)
next
  fix ds d ds' fmt
  assume "\<not> explicit fmt \<and> explicit d \<and> filter explicit ds' = []"
  then show "effective_index (ds @ d # ds') fmt = position d"
    by (simp add: effective_index_def counter_after_last_explicit)
qed

theorem print_position_counter_call_witness:
  "explicit \<lparr>position = 1, flags = 0, width = WIDTH_EMPTY, precision = WIDTH_EMPTY,
             formatChar = CHR ''s''\<rparr>
   \<and> \<not> explicit \<lparr>position = POSITION_NONE, flags = 0, width = WIDTH_EMPTY,
             precision = WIDTH_EMPTY, formatChar = CHR ''s''\<rparr>
   \<and> effective_index
        [\<lparr>position = POSITION_NONE, flags = 0, width = WIDTH_EMPTY,
           precision = WIDTH_EMPTY, formatChar = CHR ''s''\<rparr>,
         \<lparr>position = POSITION_NONE, flags = 0, width = WIDTH_EMPTY,
           precision = WIDTH_EMPTY, formatChar = CHR ''s''\<rparr>]
        \<lparr>position = POSITION_NONE, flags = 0, width = WIDTH_EMPTY,
          precision = WIDTH_EMPTY, formatChar = CHR ''s''\<rparr> = 2
   \<and> effective_index
        ([\<lparr>position = POSITION_NONE, flags = 0, width = WIDTH_EMPTY,
            precision = WIDTH_EMPTY, formatChar = CHR ''s''\<rparr>]
         @ \<lparr>position = 1, flags = 0, width = WIDTH_EMPTY, precision = WIDTH_EMPTY,
             formatChar = CHR ''s''\<rparr>
         # [\<lparr>position = POSITION_NONE, flags = 0, width = WIDTH_EMPTY,
              precision = WIDTH_EMPTY, formatChar = CHR ''s''\<rparr>])
        \<lparr>position = POSITION_NONE, flags = 0, width = WIDTH_EMPTY,
          precision = WIDTH_EMPTY, formatChar = CHR ''s''\<rparr> = 1
   \<and> print ''%s%s|%1$s%s%s'' [ACString 0 ''a'', ACString 8 ''b''] = Inr ''ab|bbb''
   \<and> print ''%1$s|%s%s'' [ACString 0 ''a'', ACString 8 ''b''] = Inr ''b|bb''"
proof -
  let ?d0 = "\<lparr>position = POSITION_NONE, flags = 0, width = WIDTH_EMPTY,
             precision = WIDTH_EMPTY, formatChar = CHR ''s''\<rparr>"
  let ?d1 = "\<lparr>position = 1, flags = 0, width = WIDTH_EMPTY, precision = WIDTH_EMPTY,
             formatChar = CHR ''s''\<rparr>"
  let ?args = "[ACString 0 ''a'', ACString 8 ''b'']"
  note t = print_position_counter_call [of "''%s%s|%1$s%s%s''" ?args]
  note u = print_position_counter_call [of "''%1$s|%s%s''" ?args]
  have e1: "explicit ?d1" and e0: "\<not> explicit ?d0"
    by (simp_all add: explicit_def flag_defs)
  have f0: "filter explicit [?d0, ?d0] = []" "filter explicit [?d0] = []"
    using e0 by simp_all
  have a: "effective_index [?d0, ?d0] ?d0 = 2"
  proof -
    from t have "\<not> explicit ?d0 \<and> filter explicit [?d0, ?d0] = []
        \<longrightarrow> effective_index [?d0, ?d0] ?d0 = of_nat (length [?d0, ?d0])"
      by blast
    with e0 f0(1) show ?thesis by simp
  qed
  have b: "effective_index ([?d0] @ ?d1 # [?d0]) ?d0 = 1"
  proof -
    from t have "\<not> explicit ?d0 \<and> explicit ?d1 \<and> filter explicit [?d0] = []
        \<longrightarrow> effective_index ([?d0] @ ?d1 # [?d0]) ?d0 = position ?d1"
      by blast
    with e0 e1 f0(2) show ?thesis by simp
  qed
  have c: "print ''%s%s|%1$s%s%s'' ?args = Inr ''ab|bbb''"
    using t
    by (simp add: tokens.simps parse_defs flag_defs effective_index_def counter_after_def
        explicit_def printArg_def printArg_switch_def text_defs)
  have d: "print ''%1$s|%s%s'' ?args = Inr ''b|bb''"
    using u
    by (simp add: tokens.simps parse_defs flag_defs effective_index_def counter_after_def
        explicit_def printArg_def printArg_switch_def text_defs)
  from e1 e0 a b c d show ?thesis by blast
qed

text \<open>
  Claim C2 as stated fails on a template with two different explicit positions: after
  \<open>%0$s\<close> the counter is 0, \<open>%1$s\<close> moves it to 1, and the directive without a
  position that follows takes argument 1 and not argument 0.
\<close>

theorem print_counter_not_frozen:
  "print ''%0$s%1$s%s'' [ACString 0 ''a'', ACString 8 ''b''] = Inr ''abb''
   \<and> snd (snd (print_position False 0
        \<lparr>position = 0, flags = 0, width = WIDTH_EMPTY, precision = WIDTH_EMPTY,
          formatChar = CHR ''s''\<rparr>)) = 0
   \<and> snd (snd (print_position True 0
        \<lparr>position = 1, flags = 0, width = WIDTH_EMPTY, precision = WIDTH_EMPTY,
          formatChar = CHR ''s''\<rparr>)) = 1"
  by (simp add: print_defs parse_defs flag_defs text_defs)

text \<open>
  A written position equal to \<^verbatim>\<open>POSITION_NONE\<close> is read as no position at all.
\<close>

lemma handlePosition_collides_with_none:
  "handlePosition ''4294967295$s'' = (POSITION_NONE, ''s'')
   \<and> \<not> explicit \<lparr>position = fst (handlePosition ''4294967295$s''), flags = 0,
          width = WIDTH_EMPTY, precision = WIDTH_EMPTY, formatChar = CHR ''s''\<rparr>"
  by (simp add: parse_defs flag_defs explicit_def)

end
